(* ===== verification/Prelude.thy ===== *)
theory Prelude
  imports Main "HOL-Library.Word"
begin

text \<open>
  Shared vocabulary of the development. The client is written in Rust; this theory names
  the Rust types the model uses (\<open>usize\<close> as \<open>nat\<close>, \<open>i64\<close> as \<open>int\<close>,
  \<open>u16\<close> as a 16-bit word) and models the few standard-library operations on slices and
  vectors that the client calls: \<open>slice::get\<close>, \<open>Vec::insert\<close>, \<open>Vec::remove\<close>,
  \<open>Iterator::position\<close> and \<open>slice::binary_search_by_key\<close>. An operation that panics
  in Rust returns \<open>None\<close> here; every other result is \<open>Some\<close>. A Rust
  \<open>Result\<close> is a sum, \<open>Inl\<close> the \<open>Err\<close> and \<open>Inr\<close> the \<open>Ok\<close> value.
  The lemmas are the generic facts on these operations and on sorted lists that the
  component theories share; they are collected in \<open>vec_simps\<close>.
\<close>

named_theorems vec_simps "characteristic equations of the models of Rust's slice and Vec operations"

type_synonym usize = nat
type_synonym i64 = int
type_synonym u16 = "16 word"

subsection \<open>Slices and vectors\<close>

text \<open>\<open>slice::get\<close>: the element at an index, \<open>None\<close> past the end (no panic).\<close>

definition slice_get :: "'a list \<Rightarrow> nat \<Rightarrow> 'a option" where
  "slice_get xs i = (if i < length xs then Some (xs ! i) else None)"

text \<open>\<open>Vec::insert\<close>: panics when the index is past the length.\<close>

definition vec_insert :: "nat \<Rightarrow> 'a \<Rightarrow> 'a list \<Rightarrow> 'a list option" where
  "vec_insert i x xs = (if i \<le> length xs then Some (take i xs @ x # drop i xs) else None)"

text \<open>\<open>Vec::remove\<close>: returns the removed element; panics when the index is out of range.\<close>

definition vec_remove :: "nat \<Rightarrow> 'a list \<Rightarrow> ('a \<times> 'a list) option" where
  "vec_remove i xs = (if i < length xs then Some (xs ! i, take i xs @ drop (Suc i) xs) else None)"

text \<open>\<open>Iterator::position\<close>: the index of the first element satisfying the predicate.\<close>

fun position :: "('a \<Rightarrow> bool) \<Rightarrow> 'a list \<Rightarrow> nat option" where
  "position P [] = None"
| "position P (x # xs) = (if P x then Some 0 else map_option Suc (position P xs))"

subsection \<open>Binary search\<close>

text \<open>
  \<open>slice::binary_search_by_key\<close> as the standard library of the client's era implements
  \<open>binary_search_by\<close>: a window \<open>[base, base + size)\<close> is halved while
  \<open>size > 1\<close> (\<open>sz\<close> here, \<open>size\<close> being a HOL constant), keeping the half whose left end compares not greater than the key, and a
  last comparison at \<open>base\<close> decides between \<open>Ok base\<close> and the insertion point
  \<open>Err (base + (cmp == Less))\<close>. The elements are read with \<open>get_unchecked\<close>, which
  is \<open>s ! mid\<close> here: \<open>bsearch_loop_bounds\<close> shows the index is always in range.
\<close>

function bsearch_loop :: "('a \<Rightarrow> 'b::linorder) \<Rightarrow> 'b \<Rightarrow> 'a list \<Rightarrow> nat \<Rightarrow> nat \<Rightarrow> nat" where
  "bsearch_loop f b s base sz =
     (if 1 < sz then
        (let half = sz div 2; mid = base + half
         in bsearch_loop f b s (if b < f (s ! mid) then base else mid) (sz - half))
      else base)"
  by pat_completeness auto
termination
  by (relation "measure (\<lambda>(f, b, s, base, sz). sz)") auto

declare bsearch_loop.simps [simp del]

definition binary_search_by_key :: "'b::linorder \<Rightarrow> ('a \<Rightarrow> 'b) \<Rightarrow> 'a list \<Rightarrow> nat + nat" where
  "binary_search_by_key b f s =
     (if s = [] then Inl 0
      else (let base = bsearch_loop f b s 0 (length s); k = f (s ! base)
            in if k = b then Inr base else Inl (base + (if k < b then 1 else 0))))"

subsection \<open>Lemmas on the slice and vector operations\<close>

lemma slice_get_Some_iff [vec_simps]:
  "slice_get xs i = Some x \<longleftrightarrow> i < length xs \<and> xs ! i = x"
  by (auto simp: slice_get_def)

lemma slice_get_None_iff [vec_simps]:
  "slice_get xs i = None \<longleftrightarrow> length xs \<le> i"
  by (simp add: slice_get_def)

lemma vec_insert_in_range [vec_simps]:
  "i \<le> length xs \<Longrightarrow> vec_insert i x xs = Some (take i xs @ x # drop i xs)"
  by (simp add: vec_insert_def)

lemma vec_remove_in_range [vec_simps]:
  "i < length xs \<Longrightarrow> vec_remove i xs = Some (xs ! i, take i xs @ drop (Suc i) xs)"
  by (simp add: vec_remove_def)

lemma position_None_iff [vec_simps]:
  "position P xs = None \<longleftrightarrow> (\<forall>x\<in>set xs. \<not> P x)"
  by (induction xs) auto

lemma position_SomeD:
  "position P xs = Some i \<Longrightarrow> i < length xs \<and> P (xs ! i) \<and> (\<forall>j<i. \<not> P (xs ! j))"
proof (induction xs arbitrary: i)
  case Nil
  then show ?case by simp
next
  case (Cons x xs)
  then show ?case by (auto simp: less_Suc_eq_0_disj split: if_splits)
qed

lemma position_first:
  "i < length xs \<Longrightarrow> P (xs ! i) \<Longrightarrow> \<forall>j<i. \<not> P (xs ! j) \<Longrightarrow> position P xs = Some i"
proof (induction xs arbitrary: i)
  case Nil
  then show ?case by simp
next
  case (Cons x xs)
  show ?case
  proof (cases i)
    case 0
    with Cons.prems show ?thesis by simp
  next
    case (Suc k)
    with Cons.prems have "\<not> P x" and "\<forall>j<k. \<not> P (xs ! j)" by auto
    with Cons.prems Suc have "position P xs = Some k" by (intro Cons.IH) auto
    with \<open>\<not> P x\<close> Suc show ?thesis by simp
  qed
qed

lemma length_take_insert [simp]:
  "i \<le> length xs \<Longrightarrow> length (take i xs @ x # drop i xs) = Suc (length xs)"
  by simp

subsection \<open>Sorted lists and the binary search\<close>

lemma sorted_map_nth_mono:
  "sorted (map f xs) \<Longrightarrow> i \<le> j \<Longrightarrow> j < length xs \<Longrightarrow> f (xs ! i) \<le> f (xs ! j)"
  using sorted_nth_mono [of "map f xs" i j] by simp

lemma bsearch_loop_correct:
  assumes "sorted (map f s)" "0 < sz" "base + sz \<le> length s"
    "base = 0 \<or> f (s ! base) \<le> b" "base + sz = length s \<or> b < f (s ! (base + sz))"
  shows "base \<le> bsearch_loop f b s base sz \<and> bsearch_loop f b s base sz < length s
    \<and> (bsearch_loop f b s base sz = 0 \<or> f (s ! bsearch_loop f b s base sz) \<le> b)
    \<and> (Suc (bsearch_loop f b s base sz) = length s \<or> b < f (s ! Suc (bsearch_loop f b s base sz)))"
  using assms
proof (induction f b s base sz rule: bsearch_loop.induct)
  case (1 f b s base sz)
  show ?case
  proof (cases "1 < sz")
    case False
    then have "bsearch_loop f b s base sz = base"
      by (simp add: bsearch_loop.simps [of f b s base sz])
    moreover from "1.prems" False have "sz = 1" by simp
    ultimately show ?thesis using "1.prems" by simp
  next
    case True
    define half where "half = sz div 2"
    define mid where "mid = base + half"
    have half: "0 < half" "half \<le> sz - half" "half < sz" using True by (simp_all add: half_def)
    have mid: "mid < length s" using "1.prems"(3) half by (simp add: mid_def half_def)
    have unf: "bsearch_loop f b s base sz =
      bsearch_loop f b s (if b < f (s ! mid) then base else mid) (sz - half)"
      using True by (simp add: bsearch_loop.simps [of f b s base sz] half_def mid_def Let_def)
    show ?thesis
    proof (cases "b < f (s ! mid)")
      case lt: True
      have "base + (sz - half) = length s \<or> b < f (s ! (base + (sz - half)))"
      proof (cases "base + (sz - half) < length s")
        case True
        have "mid \<le> base + (sz - half)" using half by (simp add: mid_def)
        then have "f (s ! mid) \<le> f (s ! (base + (sz - half)))"
          using sorted_map_nth_mono [OF "1.prems"(1)] True by blast
        with lt have "b < f (s ! (base + (sz - half)))" by (rule order.strict_trans2)
        then show ?thesis by simp
      next
        case False
        with "1.prems"(3) half show ?thesis by simp
      qed
      then show ?thesis
        using "1.IH" [OF True half_def mid_def] lt "1.prems" half unf by simp
    next
      case ge: False
      then have le: "f (s ! mid) \<le> b" by simp
      have "mid + (sz - half) = base + sz" using half by (simp add: mid_def)
      then have "mid \<le> bsearch_loop f b s mid (sz - half) \<and> bsearch_loop f b s mid (sz - half) < length s
        \<and> (bsearch_loop f b s mid (sz - half) = 0 \<or> f (s ! bsearch_loop f b s mid (sz - half)) \<le> b)
        \<and> (Suc (bsearch_loop f b s mid (sz - half)) = length s
             \<or> b < f (s ! Suc (bsearch_loop f b s mid (sz - half))))"
        using "1.IH" [OF True half_def mid_def] ge le "1.prems" half by simp
      with ge unf show ?thesis by (simp add: mid_def)
    qed
  qed
qed

lemma filter_prefix_nth:
  assumes "k \<le> length xs" "\<And>j. j < length xs \<Longrightarrow> P (xs ! j) \<longleftrightarrow> j < k"
  shows "filter P xs = take k xs"
proof -
  have "filter P (take k xs) = take k xs"
    using assms by (auto simp: in_set_conv_nth intro!: filter_True)
  moreover have "filter P (drop k xs) = []"
    using assms by (auto simp: in_set_conv_nth intro!: filter_False)
  ultimately show ?thesis
    by (metis append_Nil2 append_take_drop_id filter_append)
qed

lemma binary_search_by_key_Ok:
  assumes "sorted (map f s)" "binary_search_by_key b f s = Inr i"
  shows "i < length s \<and> f (s ! i) = b"
proof -
  have ne: "s \<noteq> []" using assms(2) by (auto simp: binary_search_by_key_def)
  then have "bsearch_loop f b s 0 (length s) < length s"
    using bsearch_loop_correct [OF assms(1), of "length s" 0 b] by simp
  with ne assms(2) show ?thesis
    by (auto simp: binary_search_by_key_def Let_def split: if_splits)
qed

lemma binary_search_by_key_Err:
  assumes "sorted (map f s)" "binary_search_by_key b f s = Inl i"
  shows "b \<notin> f ` set s \<and> i = length (filter (\<lambda>x. f x < b) s)"
proof (cases "s = []")
  case True
  with assms(2) show ?thesis by (simp add: binary_search_by_key_def)
next
  case ne: False
  define r where "r = bsearch_loop f b s 0 (length s)"
  have r: "r < length s" "r = 0 \<or> f (s ! r) \<le> b" "Suc r = length s \<or> b < f (s ! Suc r)"
    using bsearch_loop_correct [OF assms(1), of "length s" 0 b] ne by (simp_all add: r_def)
  have neq: "f (s ! r) \<noteq> b" and i: "i = r + (if f (s ! r) < b then 1 else 0)"
    using assms(2) ne by (auto simp: binary_search_by_key_def r_def Let_def split: if_splits)
  have mono: "\<And>j k. j \<le> k \<Longrightarrow> k < length s \<Longrightarrow> f (s ! j) \<le> f (s ! k)"
    using sorted_map_nth_mono [OF assms(1)] by blast
  have split: "\<And>j. j < length s \<Longrightarrow> f (s ! j) < b \<longleftrightarrow> j < i"
    and above: "\<And>j. j < length s \<Longrightarrow> f (s ! j) \<noteq> b"
  proof -
    fix j assume j: "j < length s"
    show "f (s ! j) < b \<longleftrightarrow> j < i"
    proof (cases "f (s ! r) < b")
      case True
      show ?thesis
      proof (cases "j \<le> r")
        case True
        with \<open>f (s ! r) < b\<close> mono [of j r] r(1) i show ?thesis by simp
      next
        case False
        with r(3) j mono [of "Suc r" j] \<open>f (s ! r) < b\<close> i show ?thesis by auto
      qed
    next
      case False
      with neq r(2) have "r = 0" "b < f (s ! 0)" by auto
      with False i mono [of 0 j] j show ?thesis by auto
    qed
    show "f (s ! j) \<noteq> b"
    proof (cases "j \<le> r")
      case True
      show ?thesis
      proof (cases "f (s ! r) < b")
        case True
        with \<open>j \<le> r\<close> mono [of j r] r(1) show ?thesis by simp
      next
        case False
        with neq r(2) have "r = 0" "b < f (s ! 0)" by auto
        with mono [of 0 j] j show ?thesis by auto
      qed
    next
      case False
      then have "Suc r < length s" using j by simp
      with r(3) mono [of "Suc r" j] False j show ?thesis by auto
    qed
  qed
  have "i \<le> length s" using i r(1) by simp
  then have "filter (\<lambda>x. f x < b) s = take i s" by (rule filter_prefix_nth) (rule split)
  moreover have "b \<notin> f ` set s" using above by (force simp: in_set_conv_nth)
  ultimately show ?thesis using \<open>i \<le> length s\<close> by simp
qed

lemma sorted_filter_nth_iff:
  assumes "sorted (map f xs)" "\<And>a b. a \<le> b \<Longrightarrow> P b \<Longrightarrow> P a" "j < length xs"
  shows "P (f (xs ! j)) \<longleftrightarrow> j < length (filter (\<lambda>x. P (f x)) xs)"
  using assms(1,3)
proof (induction xs arbitrary: j)
  case Nil
  then show ?case by simp
next
  case (Cons x xs)
  show ?case
  proof (cases "P (f x)")
    case True
    with Cons show ?thesis by (cases j) auto
  next
    case False
    have none: "\<not> P (f y)" if "y \<in> set (x # xs)" for y
      using that Cons.prems(1) False assms(2) by auto
    then have "filter (\<lambda>x. P (f x)) (x # xs) = []" by (auto intro: filter_False)
    with none [OF nth_mem [OF Cons.prems(2)]] show ?thesis by simp
  qed
qed

lemma set_take_nth: "y \<in> set (take i xs) \<Longrightarrow> \<exists>j<i. j < length xs \<and> y = xs ! j"
  by (auto simp: in_set_conv_nth)

lemma set_drop_nth: "y \<in> set (drop i xs) \<Longrightarrow> \<exists>j. i \<le> j \<and> j < length xs \<and> y = xs ! j"
  by (auto simp: in_set_conv_nth) (metis le_add2 add.commute less_diff_conv)

lemma sorted_insert_at:
  assumes "sorted (map f xs)" "\<And>j. j < i \<Longrightarrow> j < length xs \<Longrightarrow> f (xs ! j) \<le> f x"
    "\<And>j. i \<le> j \<Longrightarrow> j < length xs \<Longrightarrow> f x \<le> f (xs ! j)"
  shows "sorted (map f (take i xs @ x # drop i xs))"
proof -
  have lo: "\<forall>y\<in>set (take i xs). f y \<le> f x" using assms(2) by (auto dest: set_take_nth)
  have hi: "\<forall>y\<in>set (drop i xs). f x \<le> f y" using assms(3) by (auto dest!: set_drop_nth)
  have "sorted (map f (take i xs) @ map f (drop i xs))"
    using assms(1) by (simp flip: map_append)
  with lo hi show ?thesis
    by (auto simp: sorted_append intro: order_trans)
qed

lemma sorted_remove_at:
  assumes "sorted l"
  shows "sorted (take i l @ drop (Suc i) l)"
proof -
  have "sorted (take i l)" "sorted (drop i l)" and le: "\<forall>a\<in>set (take i l). \<forall>b\<in>set (drop i l). a \<le> b"
    using assms by (metis append_take_drop_id sorted_append)+
  moreover have "sorted (drop (Suc i) l)" using assms by (simp add: sorted_wrt_drop)
  moreover have "set (drop (Suc i) l) \<subseteq> set (drop i l)" by (simp add: set_drop_subset_set_drop)
  ultimately show ?thesis by (auto simp: sorted_append)
qed

lemma sorted_update_at:
  assumes "sorted (map f xs)" "i < length xs" "\<And>j. j < i \<Longrightarrow> f (xs ! j) \<le> f x"
    "\<And>j. i < j \<Longrightarrow> j < length xs \<Longrightarrow> f x \<le> f (xs ! j)"
  shows "sorted (map f (xs[i := x]))"
proof -
  define ys where "ys = take i xs @ drop (Suc i) xs"
  have ys: "length ys = length xs - 1" "\<And>j. j < i \<Longrightarrow> ys ! j = xs ! j"
    "\<And>j. i \<le> j \<Longrightarrow> j < length ys \<Longrightarrow> ys ! j = xs ! Suc j"
    using assms(2) by (auto simp: ys_def nth_append min_def)
  have "sorted (map f ys)"
    using sorted_remove_at [OF assms(1), of i] by (simp add: ys_def take_map drop_map)
  then have "sorted (map f (take i ys @ x # drop i ys))"
  proof (rule sorted_insert_at)
    show "f (ys ! j) \<le> f x" if "j < i" "j < length ys" for j
      using that ys assms(3) by simp
    show "f x \<le> f (ys ! j)" if "i \<le> j" "j < length ys" for j
      using that ys assms(4) [of "Suc j"] by simp
  qed
  moreover have "take i ys @ x # drop i ys = xs[i := x]"
    using assms(2) by (simp add: ys_def upd_conv_take_nth_drop min_def)
  ultimately show ?thesis by simp
qed

lemma filter_suffix_nth:
  assumes "k \<le> length xs" "\<And>j. j < length xs \<Longrightarrow> P (xs ! j) \<longleftrightarrow> j < k"
  shows "filter (\<lambda>x. \<not> P x) xs = drop k xs"
proof -
  have "filter (\<lambda>x. \<not> P x) (take k xs) = []"
    using assms by (auto simp: in_set_conv_nth intro!: filter_False)
  moreover have "filter (\<lambda>x. \<not> P x) (drop k xs) = drop k xs"
    using assms by (auto simp: in_set_conv_nth intro!: filter_True)
  ultimately show ?thesis
    by (metis append_Nil append_take_drop_id filter_append)
qed

lemma filter_key_absent: "f a \<notin> f ` set xs \<Longrightarrow> filter (\<lambda>x. f x = f a) xs = []"
  by (induction xs) auto

lemma key_absent_take: "f a \<notin> f ` set xs \<Longrightarrow> f a \<notin> f ` set (take k xs)"
  using set_take_subset [of k xs] by blast

lemma key_absent_drop: "f a \<notin> f ` set xs \<Longrightarrow> f a \<notin> f ` set (drop k xs)"
  using set_drop_subset [of k xs] by blast


lemma position_key_absent: "k \<notin> f ` set xs \<Longrightarrow> position (\<lambda>x. f x = k) xs = None"
  by (induction xs) auto

lemma position_key_present: "k \<in> f ` set xs \<Longrightarrow> \<exists>i. position (\<lambda>x. f x = k) xs = Some i"
  by (induction xs) auto

text \<open>
  C7: On a vector sorted by the key, the standard library's binary search returns
  \<open>Ok i\<close> with the key at index \<open>i\<close>, or \<open>Err i\<close> when the key is absent, with
  \<open>i\<close> the number of elements whose key is smaller: the insertion point that keeps the
  vector sorted.
\<close>

theorem binary_search_by_key_correct:
  assumes "sorted (map f s)"
  shows "(case binary_search_by_key b f s of
            Inr i \<Rightarrow> i < length s \<and> f (s ! i) = b
          | Inl i \<Rightarrow> b \<notin> f ` set s \<and> i = length (filter (\<lambda>x. f x < b) s))"
  using binary_search_by_key_Ok [OF assms] binary_search_by_key_Err [OF assms]
  by (auto split: sum.split)

theorem binary_search_by_key_correct_witness:
  "sorted (map id [1, 3, 3, 5 :: int]) \<and> binary_search_by_key (3::int) id [1, 3, 3, 5] = Inr 2 \<and>
   binary_search_by_key (4::int) id [1, 3, 3, 5] = Inl 3 \<and>
   (case binary_search_by_key (4::int) id [1, 3, 3, 5] of
      Inr i \<Rightarrow> i < length [1, 3, 3, 5 :: int] \<and> id ([1, 3, 3, 5 :: int] ! i) = 4
    | Inl i \<Rightarrow> (4::int) \<notin> id ` set [1, 3, 3, 5] \<and> i = length (filter (\<lambda>x. id x < (4::int)) [1, 3, 3, 5]))"
proof -
  have "binary_search_by_key (3::int) id [1, 3, 3, 5] = Inr 2"
    by (simp add: binary_search_by_key_def bsearch_loop.simps)
  moreover have "binary_search_by_key (4::int) id [1, 3, 3, 5] = Inl 3"
    by (simp add: binary_search_by_key_def bsearch_loop.simps)
  moreover have "sorted (map id [1, 3, 3, 5 :: int])" by simp
  moreover have "case binary_search_by_key (4::int) id [1, 3, 3, 5] of
      Inr i \<Rightarrow> i < length [1, 3, 3, 5 :: int] \<and> id ([1, 3, 3, 5 :: int] ! i) = 4
    | Inl i \<Rightarrow> (4::int) \<notin> id ` set [1, 3, 3, 5] \<and> i = length (filter (\<lambda>x. id x < (4::int)) [1, 3, 3, 5])"
    by (rule binary_search_by_key_correct) simp
  ultimately show ?thesis by blast
qed

lemma map_filter_cong: "(\<And>a. a \<in> set xs \<Longrightarrow> f a = g a) \<Longrightarrow> List.map_filter f xs = List.map_filter g xs"
  by (induction xs) (auto simp: List.map_filter_simps split: option.split)

end
