(* ===== verification/Protocol.thy ===== *)
theory Protocol
  imports Prelude
begin

text \<open>
  The part of the \<open>synac\<close> protocol library (\<open>synac::common\<close> and
  \<open>synac::State\<close>) that the client's code reads and writes. The library is not part of
  this repository; its types are modelled at the boundary the client uses (spec section 6):
  the message record, the packets the client sends and matches on (every other packet is
  \<open>Other\<close>), the server error codes the dial distinguishes, and the locally mirrored
  server state with its update on a received packet. Constants of \<open>synac::common\<close>
  keep the library's names.
\<close>

subsection \<open>Messages\<close>

text \<open>\<open>synac::common::Message\<close>; the text is a byte vector.\<close>

record message =
  msg_author :: usize
  msg_channel :: usize
  msg_id :: usize
  msg_text :: string
  msg_timestamp :: i64
  msg_timestamp_edit :: "i64 option"

subsection \<open>Packets\<close>

text \<open>
  The error codes of \<open>Packet::Err\<close> the dial tells apart; every other code is
  \<open>ERR_OTHER\<close>.
\<close>

datatype err_code = ERR_UNKNOWN_USER | ERR_LOGIN_INVALID | ERR_OTHER nat

text \<open>
  The packets, with the fields of their payload structs in declaration order:
  \<^item> \<open>Login bot name password token\<close>, \<open>LoginSuccess created id token\<close>,
    \<open>LoginUpdate name password_current password_new reset_token\<close>;
  \<^item> \<open>MessageCreate channel text\<close>, \<open>MessageUpdate id text\<close>,
    \<open>MessageList after before channel limit\<close>, \<open>MessageReceive inner new\<close>,
    \<open>MessageDeleteReceive id\<close>;
  \<^item> \<open>Typing channel\<close>, \<open>TypingReceive author channel\<close>;
  \<^item> \<open>ChannelCreate default_mode_bot default_mode_user name\<close>,
    \<open>ChannelReceive id name\<close>, \<open>ChannelDeleteReceive id\<close>, \<open>UserReceive id name\<close>.
\<close>

datatype packet =
    Login bool string "string option" "string option"
  | LoginSuccess bool usize string
  | LoginUpdate "string option" "string option" "string option" bool
  | Err err_code
  | MessageCreate usize string
  | MessageUpdate usize string
  | MessageList "usize option" "usize option" usize usize
  | MessageReceive message bool
  | MessageDeleteReceive usize
  | Typing usize
  | TypingReceive usize usize
  | ChannelCreate nat nat string
  | ChannelReceive usize string
  | ChannelDeleteReceive usize
  | UserReceive usize string
  | Other nat

text \<open>Constants of \<open>synac::common\<close>.\<close>

definition DEFAULT_PORT :: u16 where
  "DEFAULT_PORT = 8439"

definition TYPING_TIMEOUT :: nat where
  "TYPING_TIMEOUT = 10"

definition LIMIT_BULK :: usize where
  "LIMIT_BULK = 64"

subsection \<open>The mirrored server state\<close>

text \<open>
  \<open>synac::State\<close>: the users and channels the server has announced, with
  \<open>State::update\<close> applying one received packet.
\<close>

record State =
  users :: "usize \<rightharpoonup> string"
  channels :: "usize \<rightharpoonup> string"

definition State_new :: State where
  "State_new = \<lparr>users = Map.empty, channels = Map.empty\<rparr>"

fun State_update :: "packet \<Rightarrow> State \<Rightarrow> State" where
  "State_update (UserReceive u name) st = st\<lparr>users := (users st)(u \<mapsto> name)\<rparr>"
| "State_update (ChannelReceive c name) st = st\<lparr>channels := (channels st)(c \<mapsto> name)\<rparr>"
| "State_update (ChannelDeleteReceive c) st = st\<lparr>channels := (channels st)(c := None)\<rparr>"
| "State_update _ st = st"

end
