(* ===== verification/Messages.thy ===== *)
theory Messages
  imports Prelude Protocol "HOL-Library.While_Combinator"
begin

text \<open>
  The per-server message store of \<open>src/src/messages.rs\<close>: struct \<open>Messages\<close>, a
  hash map from channel id to the channel's timeline, a vector of messages ordered by
  timestamp. \<open>messages_add\<close> is \<open>Messages::add\<close> (binary search on the timestamp,
  a backward scan to the first message of an equal-timestamp run, a forward scan for a
  message with the same id, then an in-place update or an insertion), \<open>messages_remove\<close>
  is \<open>Messages::remove\<close> (a scan of the channels in the hash map's iteration order),
  \<open>messages_get\<close> and \<open>messages_has\<close> are \<open>get\<close> and \<open>has\<close>. A panic
  (\<open>messages[i]\<close>, \<open>Vec::insert\<close>, \<open>Vec::remove\<close> out of range) is
  \<open>None\<close>. The reference \<open>upsert_ref\<close> states what \<open>add\<close> does to one
  timeline in terms of counts, without the searches; the lemmas show the code computes it,
  never panics, keeps every timeline sorted, updates a re-delivered message in place and
  puts a new message after all messages of the same timestamp.
\<close>

record Messages =
  messages :: "usize \<rightharpoonup> message list"

definition Messages_new :: Messages where
  "Messages_new = \<lparr>messages = Map.empty\<rparr>"

subsection \<open>Messages::add\<close>

text \<open>
  The backward scan \<open>while i > 0 && messages.get(i-1).map(|m| m.timestamp) ==
  original_timestamp { i -= 1 }\<close>; \<open>original_timestamp\<close> is always \<open>Some t\<close>.
\<close>

fun scan_back :: "message list \<Rightarrow> i64 \<Rightarrow> nat \<Rightarrow> nat" where
  "scan_back xs t 0 = 0"
| "scan_back xs t (Suc i) =
     (if map_option msg_timestamp (slice_get xs i) = Some t then scan_back xs t i else Suc i)"

text \<open>
  The forward \<open>loop\<close>: at index \<open>i\<close> an entry with the new message's id is
  overwritten and \<open>add\<close> returns; an entry with another timestamp, or the end of the
  vector, breaks the loop and the message is inserted at \<open>i\<close>.
\<close>

datatype slot = Replace nat | InsertAt nat

function scan_fwd :: "message \<Rightarrow> i64 \<Rightarrow> message list \<Rightarrow> nat \<Rightarrow> slot" where
  "scan_fwd m t xs i =
     (if map_option msg_id (slice_get xs i) = Some (msg_id m) then Replace i
      else if map_option msg_timestamp (slice_get xs i) \<noteq> Some t then InsertAt i
      else scan_fwd m t xs (Suc i))"
  by pat_completeness auto
termination
  by (relation "measure (\<lambda>(m, t, xs, i). length xs - i)") (auto simp: slice_get_def split: if_splits)

declare scan_fwd.simps [simp del]

text \<open>
  The same \<open>loop\<close> as the code writes it, with no bound on the number of rounds: the
  index moves on while the entry there exists, has another id and the run's timestamp;
  \<open>while_option\<close> is \<open>None\<close> when the loop would run forever.
\<close>

definition add_fwd_loop :: "message \<Rightarrow> i64 \<Rightarrow> message list \<Rightarrow> nat \<Rightarrow> nat option" where
  "add_fwd_loop m t xs =
     while_option (\<lambda>j. map_option msg_id (slice_get xs j) \<noteq> Some (msg_id m) \<and>
                       map_option msg_timestamp (slice_get xs j) = Some t) Suc"

text \<open>The body of \<open>add\<close> on the channel's vector.\<close>

definition add_timeline :: "message \<Rightarrow> message list \<Rightarrow> message list option" where
  "add_timeline m xs =
     (case binary_search_by_key (msg_timestamp m) msg_timestamp xs of
        Inl i \<Rightarrow> vec_insert i m xs
      | Inr i \<Rightarrow>
          (case slice_get xs i of
             None \<Rightarrow> None
           | Some x \<Rightarrow>
               (case scan_fwd m (msg_timestamp x) xs (scan_back xs (msg_timestamp x) i) of
                  Replace j \<Rightarrow> Some (xs[j := m])
                | InsertAt j \<Rightarrow> vec_insert j m xs)))"

text \<open>\<open>entry(msg.channel).or_insert_with(Vec::default)\<close>, then the body.\<close>

definition messages_add :: "message \<Rightarrow> Messages \<Rightarrow> Messages option" where
  "messages_add m ms =
     (let c = msg_channel m;
          xs = (case messages ms c of None \<Rightarrow> [] | Some xs \<Rightarrow> xs)
      in map_option (\<lambda>xs'. ms\<lparr>messages := (messages ms)(c \<mapsto> xs')\<rparr>) (add_timeline m xs))"

subsection \<open>Messages::remove, get, has\<close>

text \<open>
  The loop over \<open>&mut self.messages\<close>: the channels are visited in the hash map's
  iteration order, which Rust leaves unspecified; it is the parameter \<open>order\<close>, a list of
  the map's keys. The first channel holding the id loses its first such message.
\<close>

fun remove_from ::
  "usize \<Rightarrow> (usize \<rightharpoonup> message list) \<Rightarrow> usize list \<Rightarrow> ((usize \<rightharpoonup> message list) \<times> usize option) option"
where
  "remove_from mid mm [] = Some (mm, None)"
| "remove_from mid mm (c # cs) =
     (case mm c of
        None \<Rightarrow> remove_from mid mm cs
      | Some xs \<Rightarrow>
          (case position (\<lambda>x. msg_id x = mid) xs of
             None \<Rightarrow> remove_from mid mm cs
           | Some i \<Rightarrow> map_option (\<lambda>(_, xs'). (mm(c \<mapsto> xs'), Some c)) (vec_remove i xs)))"

definition messages_remove :: "usize list \<Rightarrow> usize \<Rightarrow> Messages \<Rightarrow> (Messages \<times> usize option) option" where
  "messages_remove order mid ms =
     map_option (\<lambda>(mm, r). (ms\<lparr>messages := mm\<rparr>, r)) (remove_from mid (messages ms) order)"

definition messages_get :: "usize \<Rightarrow> Messages \<Rightarrow> message list" where
  "messages_get c ms = (case messages ms c of None \<Rightarrow> [] | Some xs \<Rightarrow> xs)"

definition messages_has :: "usize \<Rightarrow> Messages \<Rightarrow> bool" where
  "messages_has c ms = (messages ms c \<noteq> None)"

subsection \<open>Reference behaviour and invariant\<close>

text \<open>
  What \<open>add\<close> does to a sorted timeline, stated with the number \<open>lo\<close> of messages
  older than the new one and the number \<open>hi\<close> not newer: when no message has its
  timestamp it is inserted at \<open>hi\<close>; otherwise the first message with its id among
  positions \<open>lo .. hi\<close> (the run of equal timestamps and the message right after it) is
  overwritten, and if there is none it is inserted at \<open>hi\<close>, after the run.
\<close>

definition upsert_ref :: "message \<Rightarrow> message list \<Rightarrow> message list" where
  "upsert_ref m xs =
     (let t = msg_timestamp m;
          lo = length (filter (\<lambda>x. msg_timestamp x < t) xs);
          hi = length (filter (\<lambda>x. msg_timestamp x \<le> t) xs)
      in if lo = hi then take hi xs @ m # drop hi xs
         else (case position (\<lambda>x. msg_id x = msg_id m) (take (Suc hi - lo) (drop lo xs)) of
                 Some k \<Rightarrow> xs[lo + k := m]
               | None \<Rightarrow> take hi xs @ m # drop hi xs))"

definition timeline_ok :: "usize \<Rightarrow> message list \<Rightarrow> bool" where
  "timeline_ok c xs \<longleftrightarrow> sorted (map msg_timestamp xs) \<and> list_all (\<lambda>x. msg_channel x = c) xs"

definition messages_inv :: "Messages \<Rightarrow> bool" where
  "messages_inv ms \<longleftrightarrow> (\<forall>c xs. messages ms c = Some xs \<longrightarrow> timeline_ok c xs)"

subsection \<open>The searches of add on a sorted timeline\<close>

lemma lt_count_iff:
  "sorted (map msg_timestamp xs) \<Longrightarrow> j < length xs \<Longrightarrow>
   msg_timestamp (xs ! j) < t \<longleftrightarrow> j < length (filter (\<lambda>x. msg_timestamp x < t) xs)"
  by (rule sorted_filter_nth_iff [where P = "\<lambda>v. v < t"]) auto

lemma le_count_iff:
  "sorted (map msg_timestamp xs) \<Longrightarrow> j < length xs \<Longrightarrow>
   msg_timestamp (xs ! j) \<le> t \<longleftrightarrow> j < length (filter (\<lambda>x. msg_timestamp x \<le> t) xs)"
  by (rule sorted_filter_nth_iff [where P = "\<lambda>v. v \<le> t"]) auto

lemma scan_back_run:
  assumes "sorted (map msg_timestamp xs)" "i < length xs" "msg_timestamp (xs ! i) = t"
  shows "scan_back xs t i = length (filter (\<lambda>x. msg_timestamp x < t) xs)"
  using assms(2,3)
proof (induction i)
  case 0
  then have "\<not> 0 < length (filter (\<lambda>x. msg_timestamp x < t) xs)"
    using lt_count_iff [OF assms(1), of 0 t] by simp
  then show ?case by simp
next
  case (Suc i)
  show ?case
  proof (cases "msg_timestamp (xs ! i) = t")
    case True
    with Suc show ?thesis by (simp add: slice_get_def)
  next
    case False
    have "msg_timestamp (xs ! i) \<le> t"
      using sorted_map_nth_mono [OF assms(1), of i "Suc i"] Suc.prems by simp
    with False have lt: "msg_timestamp (xs ! i) < t" by simp
    have cnt: "length (filter (\<lambda>x. msg_timestamp x < t) xs) = Suc i"
    proof -
      have "i < length (filter (\<lambda>x. msg_timestamp x < t) xs)"
        using lt_count_iff [OF assms(1), of i t] lt Suc.prems by simp
      moreover have "\<not> Suc i < length (filter (\<lambda>x. msg_timestamp x < t) xs)"
        using lt_count_iff [OF assms(1) Suc.prems(1), of t] Suc.prems(2) by simp
      ultimately show ?thesis by simp
    qed
    have "scan_back xs t (Suc i) = Suc i"
      using False Suc.prems by (simp add: slice_get_def)
    with cnt show ?thesis by simp
  qed
qed

lemma scan_fwd_run:
  assumes "j \<le> hi" "hi \<le> length xs"
    "\<And>k. j \<le> k \<Longrightarrow> k < hi \<Longrightarrow> msg_timestamp (xs ! k) = t"
    "hi < length xs \<Longrightarrow> msg_timestamp (xs ! hi) \<noteq> t"
  shows "scan_fwd m t xs j =
    (case position (\<lambda>x. msg_id x = msg_id m) (take (Suc hi - j) (drop j xs)) of
       Some k \<Rightarrow> Replace (j + k)
     | None \<Rightarrow> InsertAt hi)"
  using assms
proof (induction m t xs j rule: scan_fwd.induct)
  case (1 m t xs j)
  show ?case
  proof (cases "j < hi")
    case True
    then have j: "j < length xs" "msg_timestamp (xs ! j) = t" using "1.prems" by auto
    have tk: "take (Suc hi - j) (drop j xs) = xs ! j # take (Suc hi - Suc j) (drop (Suc j) xs)"
      using True j(1) by (simp add: Cons_nth_drop_Suc [symmetric] Suc_diff_le less_imp_le)
    show ?thesis
    proof (cases "msg_id (xs ! j) = msg_id m")
      case True
      with j tk show ?thesis by (simp add: scan_fwd.simps [of m t xs j] slice_get_def)
    next
      case False
      have "scan_fwd m t xs (Suc j) =
        (case position (\<lambda>x. msg_id x = msg_id m) (take (Suc hi - Suc j) (drop (Suc j) xs)) of
           Some k \<Rightarrow> Replace (Suc j + k) | None \<Rightarrow> InsertAt hi)"
        using "1.IH" "1.prems" True j False by (simp add: slice_get_def)
      with j tk False show ?thesis
        by (auto simp: scan_fwd.simps [of m t xs j] slice_get_def split: option.splits)
    qed
  next
    case False
    then have hi: "j = hi" using "1.prems"(1) by simp
    show ?thesis
    proof (cases "hi < length xs")
      case True
      then have "take (Suc hi - j) (drop j xs) = [xs ! hi]"
        using hi by (simp add: take_Suc_conv_app_nth Cons_nth_drop_Suc [symmetric])
      with True hi "1.prems"(4) show ?thesis
        by (simp add: scan_fwd.simps [of m t xs hi] slice_get_def)
    next
      case False
      with "1.prems"(2) have "hi = length xs" by simp
      moreover have "scan_fwd m t xs (length xs) = InsertAt (length xs)"
        by (simp add: scan_fwd.simps [of m t xs "length xs"] slice_get_def)
      ultimately show ?thesis using hi by simp
    qed
  qed
qed

lemma add_fwd_loop_step:
  "add_fwd_loop m t xs i =
     (if map_option msg_id (slice_get xs i) \<noteq> Some (msg_id m) \<and>
         map_option msg_timestamp (slice_get xs i) = Some t
      then add_fwd_loop m t xs (Suc i) else Some i)"
  unfolding add_fwd_loop_def by (subst while_option_unfold) simp

subsection \<open>add computes the reference behaviour\<close>

lemma timeline_run:
  fixes xs :: "message list" and t :: i64
  assumes "sorted (map msg_timestamp xs)"
  defines "lo \<equiv> length (filter (\<lambda>x. msg_timestamp x < t) xs)"
    and "hi \<equiv> length (filter (\<lambda>x. msg_timestamp x \<le> t) xs)"
  shows "lo \<le> hi" "hi \<le> length xs"
    "\<And>k. k < length xs \<Longrightarrow> msg_timestamp (xs ! k) < t \<longleftrightarrow> k < lo"
    "\<And>k. k < length xs \<Longrightarrow> msg_timestamp (xs ! k) \<le> t \<longleftrightarrow> k < hi"
    "\<And>k. lo \<le> k \<Longrightarrow> k < hi \<Longrightarrow> msg_timestamp (xs ! k) = t"
    "hi < length xs \<Longrightarrow> t < msg_timestamp (xs ! hi)"
proof -
  show lt: "\<And>k. k < length xs \<Longrightarrow> msg_timestamp (xs ! k) < t \<longleftrightarrow> k < lo"
    using lt_count_iff [OF assms(1)] by (simp add: lo_def)
  show le: "\<And>k. k < length xs \<Longrightarrow> msg_timestamp (xs ! k) \<le> t \<longleftrightarrow> k < hi"
    using le_count_iff [OF assms(1)] by (simp add: hi_def)
  show hl: "hi \<le> length xs" by (simp add: hi_def)
  show "lo \<le> hi"
  proof (rule ccontr)
    assume "\<not> lo \<le> hi"
    moreover have "lo \<le> length xs" by (simp add: lo_def)
    ultimately show False using lt [of hi] le [of hi] by simp
  qed
  show "\<And>k. lo \<le> k \<Longrightarrow> k < hi \<Longrightarrow> msg_timestamp (xs ! k) = t"
    using lt le hl by (metis leD less_le_trans order.not_eq_order_implies_strict)
  show "hi < length xs \<Longrightarrow> t < msg_timestamp (xs ! hi)"
    using le [of hi] by simp
qed

lemma add_timeline_upsert_ref:
  assumes "sorted (map msg_timestamp xs)"
  shows "add_timeline m xs = Some (upsert_ref m xs)"
proof -
  define t where "t = msg_timestamp m"
  define lo where "lo = length (filter (\<lambda>x. msg_timestamp x < t) xs)"
  define hi where "hi = length (filter (\<lambda>x. msg_timestamp x \<le> t) xs)"
  note run = timeline_run [OF assms, where t = t, folded lo_def hi_def]
  have ref: "upsert_ref m xs =
     (if lo = hi then take hi xs @ m # drop hi xs
      else (case position (\<lambda>x. msg_id x = msg_id m) (take (Suc hi - lo) (drop lo xs)) of
              Some k \<Rightarrow> xs[lo + k := m]
            | None \<Rightarrow> take hi xs @ m # drop hi xs))"
    by (simp only: upsert_ref_def Let_def lo_def hi_def t_def)
  show ?thesis
  proof (cases "binary_search_by_key t msg_timestamp xs")
    case (Inl i)
    from binary_search_by_key_Err [OF assms Inl]
    have absent: "t \<notin> msg_timestamp ` set xs" and i: "i = lo" by (simp_all add: lo_def)
    have "filter (\<lambda>x. msg_timestamp x < t) xs = filter (\<lambda>x. msg_timestamp x \<le> t) xs"
      using absent by (auto intro!: filter_cong)
    then have "lo = hi" by (simp add: lo_def hi_def)
    with Inl i run(2) ref show ?thesis
      by (simp add: add_timeline_def t_def [symmetric] vec_simps)
  next
    case (Inr i)
    from binary_search_by_key_Ok [OF assms Inr]
    have i: "i < length xs" "msg_timestamp (xs ! i) = t" by simp_all
    have scan_b: "scan_back xs t i = lo"
      using scan_back_run [OF assms i] by (simp add: lo_def)
    have "lo \<le> i" "i < hi" using run(3,4) [OF i(1)] i(2) by simp_all
    then have ne: "lo \<noteq> hi" by simp
    have fwd: "scan_fwd m t xs lo =
      (case position (\<lambda>x. msg_id x = msg_id m) (take (Suc hi - lo) (drop lo xs)) of
         Some k \<Rightarrow> Replace (lo + k) | None \<Rightarrow> InsertAt hi)"
      by (rule scan_fwd_run) (use run in auto)
    have add: "add_timeline m xs =
      (case scan_fwd m t xs lo of Replace j \<Rightarrow> Some (xs[j := m]) | InsertAt j \<Rightarrow> vec_insert j m xs)"
      using Inr i scan_b by (simp add: add_timeline_def t_def [symmetric] slice_get_def)
    show ?thesis
    proof (cases "position (\<lambda>x. msg_id x = msg_id m) (take (Suc hi - lo) (drop lo xs))")
      case None
      with add fwd ne ref run(2) show ?thesis by (simp add: vec_insert_in_range)
    next
      case (Some k)
      with add fwd ne ref show ?thesis by simp
    qed
  qed
qed

subsection \<open>Properties of the reference behaviour\<close>

lemma upsert_ref_sorted:
  assumes "sorted (map msg_timestamp xs)"
  shows "sorted (map msg_timestamp (upsert_ref m xs))"
proof -
  define t where "t = msg_timestamp m"
  define lo where "lo = length (filter (\<lambda>x. msg_timestamp x < t) xs)"
  define hi where "hi = length (filter (\<lambda>x. msg_timestamp x \<le> t) xs)"
  note run = timeline_run [OF assms, where t = t, folded lo_def hi_def]
  have ins: "sorted (map msg_timestamp (take hi xs @ m # drop hi xs))"
  proof (rule sorted_insert_at [OF assms])
    show "msg_timestamp (xs ! j) \<le> msg_timestamp m" if "j < hi" "j < length xs" for j
      using that run(4) [of j] by (simp add: t_def)
    show "msg_timestamp m \<le> msg_timestamp (xs ! j)" if "hi \<le> j" "j < length xs" for j
      using that run(4) [of j] by (simp add: t_def)
  qed
  have upd: "sorted (map msg_timestamp (xs[lo + k := m]))"
    if "position (\<lambda>x. msg_id x = msg_id m) (take (Suc hi - lo) (drop lo xs)) = Some k" for k
  proof -
    from position_SomeD [OF that] run(1,2) have k: "lo + k \<le> hi" "lo + k < length xs"
      by auto
    show ?thesis
    proof (rule sorted_update_at [OF assms k(2)])
      show "msg_timestamp (xs ! j) \<le> msg_timestamp m" if "j < lo + k" for j
        using that k run(4) [of j] by (simp add: t_def)
      show "msg_timestamp m \<le> msg_timestamp (xs ! j)" if "lo + k < j" "j < length xs" for j
        using that run(3) [of j] by (simp add: t_def not_less)
    qed
  qed
  show ?thesis
    using ins upd unfolding upsert_ref_def Let_def t_def [symmetric] lo_def [symmetric] hi_def [symmetric]
    by (auto split: option.splits)
qed

lemma set_upsert_ref: "set (upsert_ref m xs) \<subseteq> insert m (set xs)"
proof -
  have "set (take k xs @ m # drop k xs) = insert m (set xs)" for k
    by (metis append_take_drop_id insert_commute list.simps(15) set_append Un_insert_right)
  then show ?thesis
    using set_update_subset_insert [of xs _ m]
    by (auto simp: upsert_ref_def Let_def split: option.splits)
qed

lemma upsert_ref_update:
  assumes "sorted (map msg_timestamp xs)" "j < length xs"
    "msg_id (xs ! j) = msg_id m" "msg_timestamp (xs ! j) = msg_timestamp m"
    "\<And>k. k < length xs \<Longrightarrow> msg_id (xs ! k) = msg_id m \<Longrightarrow> k = j"
  shows "upsert_ref m xs = xs[j := m]"
proof -
  define t where "t = msg_timestamp m"
  define lo where "lo = length (filter (\<lambda>x. msg_timestamp x < t) xs)"
  define hi where "hi = length (filter (\<lambda>x. msg_timestamp x \<le> t) xs)"
  note run = timeline_run [OF assms(1), where t = t, folded lo_def hi_def]
  have j: "lo \<le> j" "j < hi" using run(3,4) [OF assms(2)] assms(4) by (simp_all add: t_def)
  define w where "w = take (Suc hi - lo) (drop lo xs)"
  have w: "\<And>k. k < Suc hi - lo \<Longrightarrow> lo + k < length xs \<Longrightarrow> k < length w \<and> w ! k = xs ! (lo + k)"
    by (auto simp: w_def)
  have "position (\<lambda>x. msg_id x = msg_id m) w = Some (j - lo)"
  proof (rule position_first)
    show "j - lo < length w" "msg_id (w ! (j - lo)) = msg_id m"
      using w [of "j - lo"] j assms(2,3) by auto
    show "\<forall>k<j - lo. \<not> msg_id (w ! k) = msg_id m"
    proof (intro allI impI)
      fix k assume "k < j - lo"
      then have "lo + k < length xs" "lo + k \<noteq> j" "k < Suc hi - lo" using j assms(2) by auto
      with w [of k] assms(5) [of "lo + k"] show "\<not> msg_id (w ! k) = msg_id m" by auto
    qed
  qed
  with j show ?thesis
    by (simp add: upsert_ref_def Let_def t_def [symmetric] lo_def [symmetric] hi_def [symmetric]
        w_def [symmetric])
qed

lemma upsert_ref_fresh:
  assumes "msg_id m \<notin> msg_id ` set xs"
  shows "upsert_ref m xs =
    take (length (filter (\<lambda>x. msg_timestamp x \<le> msg_timestamp m) xs)) xs @ m #
    drop (length (filter (\<lambda>x. msg_timestamp x \<le> msg_timestamp m) xs)) xs"
proof -
  have "\<forall>x\<in>set (take k (drop l xs)). msg_id x \<noteq> msg_id m" for k l
  proof
    fix x assume "x \<in> set (take k (drop l xs))"
    then have "x \<in> set xs" by (blast dest: in_set_takeD in_set_dropD)
    with assms show "msg_id x \<noteq> msg_id m" by (metis image_eqI)
  qed
  then have "position (\<lambda>x. msg_id x = msg_id m) (take k (drop l xs)) = None" for k l
    by (simp add: position_None_iff)
  then show ?thesis by (simp add: upsert_ref_def Let_def)
qed

subsection \<open>The store: add\<close>

lemma messages_inv_new: "messages_inv Messages_new"
  by (simp add: messages_inv_def Messages_new_def)

lemma messages_inv_get:
  "messages_inv ms \<Longrightarrow> timeline_ok c (messages_get c ms) \<or> messages ms c = None"
  by (auto simp: messages_inv_def messages_get_def split: option.splits)

lemma messages_inv_sorted:
  "messages_inv ms \<Longrightarrow> sorted (map msg_timestamp (messages_get c ms))"
  using messages_inv_get [of ms c] by (auto simp: timeline_ok_def messages_get_def)

lemma messages_get_upd [simp]:
  "messages_get c (ms\<lparr>messages := (messages ms)(c' \<mapsto> v)\<rparr>) = (if c = c' then v else messages_get c ms)"
  by (simp add: messages_get_def)

lemma messages_add_Some_iff:
  assumes "messages_inv ms"
  shows "messages_add m ms = Some ms' \<longleftrightarrow>
    ms' = ms\<lparr>messages := (messages ms)(msg_channel m \<mapsto> upsert_ref m (messages_get (msg_channel m) ms))\<rparr>"
  using add_timeline_upsert_ref [OF messages_inv_sorted [OF assms, of "msg_channel m"], of m]
  by (auto simp: messages_add_def messages_get_def Let_def)

lemma messages_inv_upsert:
  assumes "messages_inv ms"
  shows "messages_inv (ms\<lparr>messages := (messages ms)(msg_channel m \<mapsto> upsert_ref m (messages_get (msg_channel m) ms))\<rparr>)"
proof -
  let ?c = "msg_channel m" and ?xs = "messages_get (msg_channel m) ms"
  have "sorted (map msg_timestamp (upsert_ref m ?xs))"
    by (rule upsert_ref_sorted [OF messages_inv_sorted [OF assms]])
  moreover have "list_all (\<lambda>x. msg_channel x = ?c) ?xs"
    using messages_inv_get [OF assms, of ?c] by (auto simp: timeline_ok_def messages_get_def)
  then have "list_all (\<lambda>x. msg_channel x = ?c) (upsert_ref m ?xs)"
    using set_upsert_ref [of m ?xs] by (auto simp: list_all_iff)
  ultimately have "timeline_ok ?c (upsert_ref m ?xs)" by (simp add: timeline_ok_def)
  with assms show ?thesis by (auto simp: messages_inv_def)
qed

lemma upsert_ref_fresh_split:
  assumes "sorted (map msg_timestamp xs)" "msg_id m \<notin> msg_id ` set xs"
  shows "upsert_ref m xs =
    filter (\<lambda>x. msg_timestamp x \<le> msg_timestamp m) xs @ m #
    filter (\<lambda>x. msg_timestamp m < msg_timestamp x) xs"
proof -
  define t where "t = msg_timestamp m"
  define hi where "hi = length (filter (\<lambda>x. msg_timestamp x \<le> t) xs)"
  note run = timeline_run [OF assms(1), where t = t, folded hi_def]
  have "filter (\<lambda>x. msg_timestamp x \<le> t) xs = take hi xs"
    using run(2) by (rule filter_prefix_nth) (rule run(4))
  moreover have "filter (\<lambda>x. \<not> msg_timestamp x \<le> t) xs = drop hi xs"
    using run(2) by (rule filter_suffix_nth) (rule run(4))
  ultimately show ?thesis
    using upsert_ref_fresh [OF assms(2)] by (simp add: t_def hi_def not_le)
qed

text \<open>
  C1: Adding a message to a well-formed store never panics, and the store stays
  well-formed: every channel's timeline is sorted by timestamp and holds only messages of
  that channel.
\<close>

theorem messages_add_preserves_inv:
  assumes "messages_inv ms"
  shows "\<exists>ms'. messages_add m ms = Some ms' \<and> messages_inv ms'"
  using messages_add_Some_iff [OF assms] messages_inv_upsert [OF assms] by simp

text \<open>
  C2: On a well-formed store, \<open>Messages::add\<close> (binary search, backward and forward
  scans) stores in the message's channel exactly the reference timeline
  \<open>upsert_ref\<close>, and changes no other channel.
\<close>

theorem messages_add_refines_upsert:
  assumes "messages_inv ms"
  shows "messages_add m ms =
    Some (ms\<lparr>messages := (messages ms)(msg_channel m \<mapsto> upsert_ref m (messages_get (msg_channel m) ms))\<rparr>)"
  using messages_add_Some_iff [OF assms] by simp

text \<open>
  C3: Re-delivery of a message (spec section 8): adding a message with a new id and then
  a message with the same id, timestamp and channel leaves exactly one message with that
  id in the channel's timeline, the second, and the timeline one message longer.
\<close>

theorem messages_add_redelivery:
  assumes "messages_inv ms" "msg_id m1 \<notin> msg_id ` set (messages_get (msg_channel m1) ms)"
    and same: "msg_id m2 = msg_id m1" "msg_timestamp m2 = msg_timestamp m1"
      "msg_channel m2 = msg_channel m1"
  shows "\<exists>ms1 ms2. messages_add m1 ms = Some ms1 \<and> messages_add m2 ms1 = Some ms2 \<and>
    filter (\<lambda>x. msg_id x = msg_id m1) (messages_get (msg_channel m1) ms2) = [m2] \<and>
    length (messages_get (msg_channel m1) ms2) = Suc (length (messages_get (msg_channel m1) ms))"
proof -
  let ?c = "msg_channel m1"
  define xs where "xs = messages_get ?c ms"
  define hi where "hi = length (filter (\<lambda>x. msg_timestamp x \<le> msg_timestamp m1) xs)"
  have sorted: "sorted (map msg_timestamp xs)" by (simp add: xs_def messages_inv_sorted [OF assms(1)])
  have fresh: "msg_id m1 \<notin> msg_id ` set xs" using assms(2) by (simp add: xs_def)
  have hl: "hi \<le> length xs" by (simp add: hi_def)
  define ms1 where "ms1 = ms\<lparr>messages := (messages ms)(?c \<mapsto> upsert_ref m1 xs)\<rparr>"
  have ms1: "messages_add m1 ms = Some ms1" "messages_inv ms1"
    using messages_add_Some_iff [OF assms(1)] messages_inv_upsert [OF assms(1)]
    by (simp_all add: ms1_def xs_def)
  define ys where "ys = take hi xs @ m1 # drop hi xs"
  have ys: "messages_get ?c ms1 = ys"
    using upsert_ref_fresh [OF fresh] by (simp add: ms1_def ys_def hi_def)
  have y_hi: "hi < length ys" "ys ! hi = m1" using hl by (simp_all add: ys_def nth_append)
  have only: "k = hi" if "k < length ys" "msg_id (ys ! k) = msg_id m2" for k
  proof (rule ccontr)
    assume "k \<noteq> hi"
    have "ys ! k = (if k < hi then xs ! k else xs ! (k - 1))"
      using \<open>k \<noteq> hi\<close> hl by (simp add: ys_def nth_append min_def nth_Cons')
    moreover have "\<not> k < hi \<Longrightarrow> k - 1 < length xs" "k < hi \<Longrightarrow> k < length xs"
      using that(1) hl \<open>k \<noteq> hi\<close> by (simp_all add: ys_def)
    ultimately have "ys ! k \<in> set xs" by (simp split: if_splits)
    then have "msg_id (ys ! k) \<in> msg_id ` set xs" by (rule imageI)
    with that(2) same(1) fresh show False by simp
  qed
  have upd: "upsert_ref m2 ys = ys[hi := m2]"
  proof (rule upsert_ref_update)
    show "sorted (map msg_timestamp ys)" using messages_inv_sorted [OF ms1(2), of ?c] ys by simp
    show "hi < length ys" by (rule y_hi(1))
    show "msg_id (ys ! hi) = msg_id m2" "msg_timestamp (ys ! hi) = msg_timestamp m2"
      using y_hi same by simp_all
    show "\<And>k. k < length ys \<Longrightarrow> msg_id (ys ! k) = msg_id m2 \<Longrightarrow> k = hi" by (rule only)
  qed
  have ms2: "messages_add m2 ms1 = Some (ms1\<lparr>messages := (messages ms1)(?c \<mapsto> ys[hi := m2])\<rparr>)"
    using messages_add_Some_iff [OF ms1(2), of m2] ys upd same(3) by simp
  have "filter (\<lambda>x. msg_id x = msg_id m1) (ys[hi := m2]) = [m2]"
  proof -
    have "filter (\<lambda>x. msg_id x = msg_id m1) (take hi xs) = []"
         "filter (\<lambda>x. msg_id x = msg_id m1) (drop hi xs) = []"
      using filter_key_absent [OF key_absent_take [OF fresh]] filter_key_absent [OF key_absent_drop [OF fresh]]
      by simp_all
    then show ?thesis using hl same(1) by (simp add: ys_def list_update_append)
  qed
  moreover have "length ys = Suc (length xs)" using hl by (simp add: ys_def)
  ultimately show ?thesis
    using ms1(1) ms2 by (simp add: messages_get_def xs_def)
qed

text \<open>
  C4: Ordering of equal timestamps (spec section 8): a message with a new id is placed
  after every message of its channel whose timestamp is not greater, and before every
  later one; messages with equal timestamps thus stay in the order they arrived.
\<close>

theorem messages_add_after_ties:
  assumes "messages_inv ms" "msg_id m \<notin> msg_id ` set (messages_get (msg_channel m) ms)"
  shows "\<exists>ms'. messages_add m ms = Some ms' \<and>
    messages_get (msg_channel m) ms' =
      filter (\<lambda>x. msg_timestamp x \<le> msg_timestamp m) (messages_get (msg_channel m) ms) @ m #
      filter (\<lambda>x. msg_timestamp m < msg_timestamp x) (messages_get (msg_channel m) ms)"
  using upsert_ref_fresh_split [OF messages_inv_sorted [OF assms(1)] assms(2)]
  by (simp add: messages_add_Some_iff [OF assms(1)])


text \<open>
  C14: The forward \<open>loop\<close> of \<open>Messages::add\<close> terminates on every vector and every
  start index, after at most \<open>length xs - i\<close> rounds, and stops at the slot
  \<open>scan_fwd\<close> computes: an overwrite when the entry there has the new id, an
  insertion otherwise.
\<close>

theorem add_fwd_loop_terminates:
  "\<exists>j. add_fwd_loop m t xs i = Some j \<and> i \<le> j \<and> j \<le> max i (length xs) \<and>
       scan_fwd m t xs i = (if map_option msg_id (slice_get xs j) = Some (msg_id m) then Replace j else InsertAt j)"
proof (induction m t xs i rule: scan_fwd.induct)
  case (1 m t xs i)
  show ?case
  proof (cases "map_option msg_id (slice_get xs i) \<noteq> Some (msg_id m) \<and>
                map_option msg_timestamp (slice_get xs i) = Some t")
    case True
    then obtain j where j: "add_fwd_loop m t xs (Suc i) = Some j" "Suc i \<le> j" "j \<le> max (Suc i) (length xs)"
      "scan_fwd m t xs (Suc i) = (if map_option msg_id (slice_get xs j) = Some (msg_id m) then Replace j else InsertAt j)"
      using "1.IH" by blast
    have "i < length xs" using True by (auto simp: slice_get_def split: if_splits)
    moreover have "scan_fwd m t xs i = scan_fwd m t xs (Suc i)"
      using True by (subst scan_fwd.simps) auto
    moreover have "add_fwd_loop m t xs i = add_fwd_loop m t xs (Suc i)"
      using True by (subst add_fwd_loop_step) simp
    ultimately show ?thesis using j by (intro exI [of _ j]) simp
  next
    case False
    then show ?thesis
      by (intro exI [of _ i]) (auto simp: add_fwd_loop_step [of m t xs i] scan_fwd.simps [of m t xs i])
  qed
qed

subsection \<open>The store: remove\<close>

lemma remove_from_absent:
  "\<forall>c\<in>set order. \<forall>xs. mm c = Some xs \<longrightarrow> mid \<notin> msg_id ` set xs \<Longrightarrow>
   remove_from mid mm order = Some (mm, None)"
  by (induction order) (auto simp: position_key_absent split: option.splits)

lemma remove_from_found:
  assumes "mm c = Some xs" "position (\<lambda>x. msg_id x = mid) xs = Some i" "c \<in> set order"
    "\<forall>c'\<in>set order. c' \<noteq> c \<longrightarrow> (\<forall>ys. mm c' = Some ys \<longrightarrow> mid \<notin> msg_id ` set ys)"
  shows "remove_from mid mm order = Some (mm(c \<mapsto> take i xs @ drop (Suc i) xs), Some c)"
  using assms(3,4)
proof (induction order)
  case Nil
  then show ?case by simp
next
  case (Cons c' cs)
  show ?case
  proof (cases "c' = c")
    case True
    have "i < length xs" using position_SomeD [OF assms(2)] by simp
    with True assms(1,2) show ?thesis by (auto simp: vec_remove_in_range fun_eq_iff)
  next
    case False
    with Cons.prems have IH: "remove_from mid mm cs = Some (mm(c \<mapsto> take i xs @ drop (Suc i) xs), Some c)"
      by (intro Cons.IH) auto
    show ?thesis
    proof (cases "mm c'")
      case None
      with IH show ?thesis by (simp add: fun_eq_iff)
    next
      case (Some ys)
      with False Cons.prems(2) have "position (\<lambda>x. msg_id x = mid) ys = None"
        by (simp add: position_key_absent)
      with Some IH show ?thesis by (simp add: fun_eq_iff)
    qed
  qed
qed

lemma remove_from_cases:
  "\<exists>mm' r. remove_from mid mm order = Some (mm', r) \<and>
     (r = None \<and> mm' = mm \<or>
      (\<exists>c xs i. r = Some c \<and> mm c = Some xs \<and> position (\<lambda>x. msg_id x = mid) xs = Some i \<and>
         mm' = mm(c \<mapsto> take i xs @ drop (Suc i) xs)))"
proof (induction order)
  case Nil
  then show ?case by simp
next
  case (Cons c cs)
  show ?case
  proof (cases "mm c")
    case None
    with Cons.IH show ?thesis by simp
  next
    case (Some xs)
    note mc = this
    show ?thesis
    proof (cases "position (\<lambda>x. msg_id x = mid) xs")
      case None
      with mc Cons.IH show ?thesis by simp
    next
      case (Some i)
      then have "i < length xs" using position_SomeD by blast
      with mc Some show ?thesis by (auto simp: vec_remove_in_range)
    qed
  qed
qed

text \<open>
  C5: Removing an id that occurs in channel \<open>c\<close> and in no other channel, with the hash
  map visited in any order of its keys, returns \<open>c\<close>, deletes the first message with
  that id from \<open>c\<close>'s timeline and leaves every other channel unchanged.
\<close>

theorem messages_remove_present:
  assumes "set order = dom (messages ms)" "mid \<in> msg_id ` set (messages_get c ms)"
    "\<forall>c'. c' \<noteq> c \<longrightarrow> mid \<notin> msg_id ` set (messages_get c' ms)"
  shows "\<exists>ms' i. messages_remove order mid ms = Some (ms', Some c) \<and>
    position (\<lambda>x. msg_id x = mid) (messages_get c ms) = Some i \<and>
    messages_get c ms' = take i (messages_get c ms) @ drop (Suc i) (messages_get c ms) \<and>
    (\<forall>c'. c' \<noteq> c \<longrightarrow> messages ms' c' = messages ms c')"
proof -
  obtain xs where xs: "messages ms c = Some xs"
    using assms(2) by (cases "messages ms c") (auto simp: messages_get_def)
  then have get: "messages_get c ms = xs" by (simp add: messages_get_def)
  obtain i where i: "position (\<lambda>x. msg_id x = mid) xs = Some i"
    using position_key_present assms(2) get by metis
  have "c \<in> set order" using assms(1) xs by auto
  moreover have "\<forall>c'\<in>set order. c' \<noteq> c \<longrightarrow> (\<forall>ys. messages ms c' = Some ys \<longrightarrow> mid \<notin> msg_id ` set ys)"
    using assms(3) by (auto simp: messages_get_def)
  ultimately have "remove_from mid (messages ms) order =
      Some ((messages ms)(c \<mapsto> take i xs @ drop (Suc i) xs), Some c)"
    using remove_from_found [of "messages ms" c xs mid i order] xs i by blast
  then show ?thesis
    using get i by (simp add: messages_remove_def)
qed

text \<open>
  C6: Removing an id that occurs in no timeline returns "not found" and changes nothing.
\<close>

theorem messages_remove_absent:
  assumes "\<forall>c. mid \<notin> msg_id ` set (messages_get c ms)"
  shows "messages_remove order mid ms = Some (ms, None)"
proof -
  have "\<forall>c\<in>set order. \<forall>xs. messages ms c = Some xs \<longrightarrow> mid \<notin> msg_id ` set xs"
  proof (intro ballI allI impI)
    fix c xs assume "messages ms c = Some xs"
    then show "mid \<notin> msg_id ` set xs" using assms [rule_format, of c] by (simp add: messages_get_def)
  qed
  then show ?thesis by (simp add: messages_remove_def remove_from_absent)
qed

lemma timeline_ok_remove:
  "timeline_ok c xs \<Longrightarrow> timeline_ok c (take i xs @ drop (Suc i) xs)"
  using sorted_remove_at [of "map msg_timestamp xs" i]
  by (auto simp: timeline_ok_def take_map drop_map list_all_iff dest: in_set_takeD in_set_dropD)

text \<open>
  C8: Removal never panics, keeps the store well-formed, and changes at most the channel
  it reports.
\<close>

theorem messages_remove_preserves_inv:
  assumes "messages_inv ms"
  shows "\<exists>ms' r. messages_remove order mid ms = Some (ms', r) \<and> messages_inv ms' \<and>
    (\<forall>c. r \<noteq> Some c \<longrightarrow> messages ms' c = messages ms c)"
  using remove_from_cases [of mid "messages ms" order] assms
  by (auto simp: messages_remove_def messages_inv_def timeline_ok_remove)

subsection \<open>Witnesses\<close>

text \<open>The theorems above applied to concrete stores, with every hypothesis discharged.\<close>

theorem messages_add_preserves_inv_witness:
  "messages_inv Messages_new \<and>
   (\<exists>ms'. messages_add \<lparr>msg_author = 1, msg_channel = 2, msg_id = 3, msg_text = ''hello'',
            msg_timestamp = 100, msg_timestamp_edit = None\<rparr> Messages_new = Some ms' \<and> messages_inv ms')"
  using messages_add_preserves_inv [OF messages_inv_new] messages_inv_new by blast

theorem messages_add_refines_upsert_witness:
  "messages_inv \<lparr>messages = [2 \<mapsto> [\<lparr>msg_author = 1, msg_channel = 2, msg_id = 3, msg_text = ''a'',
            msg_timestamp = 100, msg_timestamp_edit = None\<rparr>]]\<rparr> \<and>
   messages_add \<lparr>msg_author = 1, msg_channel = 2, msg_id = 3, msg_text = ''b'',
            msg_timestamp = 100, msg_timestamp_edit = None\<rparr>
     \<lparr>messages = [2 \<mapsto> [\<lparr>msg_author = 1, msg_channel = 2, msg_id = 3, msg_text = ''a'',
            msg_timestamp = 100, msg_timestamp_edit = None\<rparr>]]\<rparr>
   = Some \<lparr>messages = [2 \<mapsto> [\<lparr>msg_author = 1, msg_channel = 2, msg_id = 3, msg_text = ''b'',
            msg_timestamp = 100, msg_timestamp_edit = None\<rparr>]]\<rparr>"
proof -
  have inv: "messages_inv \<lparr>messages = [2 \<mapsto> [\<lparr>msg_author = 1, msg_channel = 2, msg_id = 3, msg_text = ''a'',
            msg_timestamp = 100, msg_timestamp_edit = None\<rparr>]]\<rparr>"
    by (simp add: messages_inv_def timeline_ok_def)
  show ?thesis
    using messages_add_refines_upsert [OF inv] inv
    by (simp add: upsert_ref_def messages_get_def)
qed

theorem messages_add_redelivery_witness:
  "\<exists>ms1 ms2.
     messages_add \<lparr>msg_author = 1, msg_channel = 2, msg_id = 3, msg_text = ''draft'',
       msg_timestamp = 100, msg_timestamp_edit = None\<rparr> Messages_new = Some ms1 \<and>
     messages_add \<lparr>msg_author = 1, msg_channel = 2, msg_id = 3, msg_text = ''edited'',
       msg_timestamp = 100, msg_timestamp_edit = Some 120\<rparr> ms1 = Some ms2 \<and>
     filter (\<lambda>x. msg_id x = 3) (messages_get 2 ms2) =
       [\<lparr>msg_author = 1, msg_channel = 2, msg_id = 3, msg_text = ''edited'',
         msg_timestamp = 100, msg_timestamp_edit = Some 120\<rparr>] \<and>
     length (messages_get 2 ms2) = Suc (length (messages_get 2 Messages_new))"
  using messages_add_redelivery [OF messages_inv_new,
      of "\<lparr>msg_author = 1, msg_channel = 2, msg_id = 3, msg_text = ''draft'',
           msg_timestamp = 100, msg_timestamp_edit = None\<rparr>"
         "\<lparr>msg_author = 1, msg_channel = 2, msg_id = 3, msg_text = ''edited'',
           msg_timestamp = 100, msg_timestamp_edit = Some 120\<rparr>"]
  by (simp add: messages_get_def Messages_new_def)

theorem messages_add_after_ties_witness:
  "\<exists>ms'. messages_add \<lparr>msg_author = 7, msg_channel = 2, msg_id = 9, msg_text = ''c'',
       msg_timestamp = 100, msg_timestamp_edit = None\<rparr>
     \<lparr>messages = [2 \<mapsto> [\<lparr>msg_author = 1, msg_channel = 2, msg_id = 3, msg_text = ''a'',
         msg_timestamp = 100, msg_timestamp_edit = None\<rparr>,
       \<lparr>msg_author = 1, msg_channel = 2, msg_id = 4, msg_text = ''b'',
         msg_timestamp = 200, msg_timestamp_edit = None\<rparr>]]\<rparr> = Some ms' \<and>
   map msg_id (messages_get 2 ms') = [3, 9, 4]"
proof -
  let ?ms = "\<lparr>messages = [2 \<mapsto> [\<lparr>msg_author = 1, msg_channel = 2, msg_id = 3, msg_text = ''a'',
         msg_timestamp = 100, msg_timestamp_edit = None\<rparr>,
       \<lparr>msg_author = 1, msg_channel = 2, msg_id = 4, msg_text = ''b'',
         msg_timestamp = 200, msg_timestamp_edit = None\<rparr>]]\<rparr>"
  have inv: "messages_inv ?ms" by (simp add: messages_inv_def timeline_ok_def)
  show ?thesis
    using messages_add_after_ties [OF inv,
        of "\<lparr>msg_author = 7, msg_channel = 2, msg_id = 9, msg_text = ''c'',
             msg_timestamp = 100, msg_timestamp_edit = None\<rparr>"]
    by (auto simp: messages_get_def)
qed

theorem messages_remove_present_witness:
  "\<exists>ms' i. messages_remove [5, 2] 3
      \<lparr>messages = [2 \<mapsto> [\<lparr>msg_author = 1, msg_channel = 2, msg_id = 3, msg_text = ''a'',
          msg_timestamp = 100, msg_timestamp_edit = None\<rparr>],
        5 \<mapsto> [\<lparr>msg_author = 1, msg_channel = 5, msg_id = 4, msg_text = ''b'',
          msg_timestamp = 200, msg_timestamp_edit = None\<rparr>]]\<rparr> = Some (ms', Some 2) \<and>
    messages_get 2 ms' = [] \<and> messages ms' 5 =
      Some [\<lparr>msg_author = 1, msg_channel = 5, msg_id = 4, msg_text = ''b'',
          msg_timestamp = 200, msg_timestamp_edit = None\<rparr>]"
proof -
  let ?ms = "\<lparr>messages = [2 \<mapsto> [\<lparr>msg_author = 1, msg_channel = 2, msg_id = 3, msg_text = ''a'',
          msg_timestamp = 100, msg_timestamp_edit = None\<rparr>],
        5 \<mapsto> [\<lparr>msg_author = 1, msg_channel = 5, msg_id = 4, msg_text = ''b'',
          msg_timestamp = 200, msg_timestamp_edit = None\<rparr>]]\<rparr>"
  have dom: "set [5, 2] = dom (messages ?ms)" by auto
  have there: "3 \<in> msg_id ` set (messages_get 2 ?ms)" by (simp add: messages_get_def)
  have only: "\<forall>c'. c' \<noteq> 2 \<longrightarrow> 3 \<notin> msg_id ` set (messages_get c' ?ms)"
    by (simp add: messages_get_def)
  obtain ms' i where r: "messages_remove [5, 2] 3 ?ms = Some (ms', Some 2)"
    "position (\<lambda>x. msg_id x = 3) (messages_get 2 ?ms) = Some i"
    "messages_get 2 ms' = take i (messages_get 2 ?ms) @ drop (Suc i) (messages_get 2 ?ms)"
    "\<forall>c'. c' \<noteq> 2 \<longrightarrow> messages ms' c' = messages ?ms c'"
    using messages_remove_present [OF dom there only] by blast
  from r(2) have "i = 0" by (simp add: messages_get_def)
  with r show ?thesis by (auto simp: messages_get_def)
qed

theorem messages_remove_absent_witness:
  "messages_remove [2] 8
      \<lparr>messages = [2 \<mapsto> [\<lparr>msg_author = 1, msg_channel = 2, msg_id = 3, msg_text = ''a'',
          msg_timestamp = 100, msg_timestamp_edit = None\<rparr>]]\<rparr> =
   Some (\<lparr>messages = [2 \<mapsto> [\<lparr>msg_author = 1, msg_channel = 2, msg_id = 3, msg_text = ''a'',
          msg_timestamp = 100, msg_timestamp_edit = None\<rparr>]]\<rparr>, None)"
  by (rule messages_remove_absent) (simp add: messages_get_def)

theorem messages_remove_preserves_inv_witness:
  "messages_inv Messages_new \<and>
   (\<exists>ms' r. messages_remove [] 3 Messages_new = Some (ms', r) \<and> messages_inv ms' \<and>
      (\<forall>c. r \<noteq> Some c \<longrightarrow> messages ms' c = messages Messages_new c))"
  using messages_remove_preserves_inv [OF messages_inv_new] messages_inv_new by blast

end
