(* ===== verification/Typing.thy ===== *)
theory Typing
  imports Protocol
begin

text \<open>
  The typing tracker (\<open>Typing\<close> in \<open>typing.rs\<close>). That file is not among the
  repository's sources, so the tracker is modelled from the spec (sections 3 and 4.3) at the
  interface \<open>connections.rs\<close> and \<open>main.rs\<close> use: \<open>Typing::new\<close>,
  \<open>insert(author, channel)\<close> and \<open>check(current_channel, state)\<close>. Time is explicit:
  \<open>now\<close> is the reading of the monotonic clock in seconds, an entry records the time of
  its insertion, and an entry is live while fewer than \<open>TYPING_TIMEOUT\<close> seconds have
  passed. Expiry is decided when the tracker is read; nothing is removed eagerly. The entries
  are kept as a list in insertion order, at most one per user (\<open>typing_inv\<close>).
\<close>

record Typing =
  typing :: "(usize \<times> usize \<times> nat) list"

definition Typing_new :: Typing where
  "Typing_new = \<lparr>typing = []\<rparr>"

text \<open>\<open>insert\<close>: the user's entry, if any, is replaced by one for the new channel and time.\<close>

definition typing_insert :: "nat \<Rightarrow> usize \<Rightarrow> usize \<Rightarrow> Typing \<Rightarrow> Typing" where
  "typing_insert now author channel t =
     t\<lparr>typing := filter (\<lambda>e. fst e \<noteq> author) (typing t) @ [(author, channel, now)]\<rparr>"

text \<open>The users with a live entry in the given channel, in insertion order.\<close>

definition typing_live :: "nat \<Rightarrow> usize option \<Rightarrow> Typing \<Rightarrow> usize list" where
  "typing_live now channel t =
     map fst (filter (\<lambda>(u, c, at). channel = Some c \<and> now - at < TYPING_TIMEOUT) (typing t))"

text \<open>
  The summary line: one name ``is typing'', two names joined by ``and'' ``are typing''; for
  more names the spec gives no form, and they are listed with commas and a final ``and''.
\<close>

fun join_names :: "string list \<Rightarrow> string" where
  "join_names [] = []"
| "join_names [a] = a"
| "join_names [a, b] = a @ '' and '' @ b"
| "join_names (a # rest) = a @ '', '' @ join_names rest"

definition typing_summary :: "string list \<Rightarrow> string option" where
  "typing_summary names =
     (case names of
        [] \<Rightarrow> None
      | [a] \<Rightarrow> Some (a @ '' is typing...'')
      | _ \<Rightarrow> Some (join_names names @ '' are typing...''))"

text \<open>\<open>check\<close>: the live users of the channel, resolved to names through the mirrored state.\<close>

definition typing_check :: "nat \<Rightarrow> usize option \<Rightarrow> State \<Rightarrow> Typing \<Rightarrow> string option" where
  "typing_check now channel st t = typing_summary (List.map_filter (users st) (typing_live now channel t))"

definition typing_inv :: "Typing \<Rightarrow> bool" where
  "typing_inv t \<longleftrightarrow> distinct (map fst (typing t))"

subsection \<open>Lemmas\<close>

lemma typing_inv_new: "typing_inv Typing_new"
  by (simp add: typing_inv_def Typing_new_def)

lemma typing_insert_inv: "typing_inv t \<Longrightarrow> typing_inv (typing_insert now author channel t)"
proof -
  assume "typing_inv t"
  then have "distinct (map fst (filter (\<lambda>e. fst e \<noteq> author) (typing t)))"
    by (simp add: typing_inv_def distinct_map_filter)
  moreover have "author \<notin> fst ` set (filter (\<lambda>e. fst e \<noteq> author) (typing t))" by auto
  ultimately show ?thesis by (simp add: typing_inv_def typing_insert_def)
qed

lemma map_fst_filter_drop_key:
  "map fst (filter P (filter (\<lambda>e. fst e \<noteq> a) xs)) = filter (\<lambda>u. u \<noteq> a) (map fst (filter P xs))"
  by (induction xs) auto

lemma typing_live_insert:
  "typing_live now' channel (typing_insert now author c t) =
     filter (\<lambda>u. u \<noteq> author) (typing_live now' channel t) @
     (if channel = Some c \<and> now' - now < TYPING_TIMEOUT then [author] else [])"
  using map_fst_filter_drop_key [of _ author "typing t"]
  by (simp add: typing_live_def typing_insert_def)

lemma typing_check_single:
  "users st u = Some name \<Longrightarrow>
   typing_check now (Some c) st (typing_insert now u c Typing_new) = Some (name @ '' is typing...'')"
  by (simp add: typing_check_def typing_live_insert typing_summary_def TYPING_TIMEOUT_def
      typing_live_def Typing_new_def List.map_filter_def typing_insert_def)

lemma typing_check_new: "typing_check now channel st Typing_new = None"
  by (simp add: typing_check_def typing_live_def typing_summary_def Typing_new_def List.map_filter_simps)

end
