(* ===== verification/Addr.thy ===== *)
theory Addr
  imports Protocol
begin

text \<open>
  Address parsing: \<open>parse_addr\<close> of \<open>src/src/connections.rs\<close>, used for the saved
  servers at start-up (\<open>Connections::new\<close>) and for a server the user adds
  (\<open>main.rs\<close>). It splits the input at its last colon (\<open>rsplitn(2, ':')\<close>), parses
  the part after it as a \<open>u16\<close> port (\<open>str::parse\<close>, that is
  \<open>u16::from_str_radix(_, 10)\<close>: an optional \<open>+\<close>, then decimal digits, with the
  multiplication and addition checked for overflow), uses \<open>DEFAULT_PORT\<close> when there is
  no colon, and takes the first address that \<open>(host, port).to_socket_addrs()\<close> yields.
  That last call parses IP literals and otherwise asks the system resolver; both are outside
  the repository and are the parameter \<open>resolve\<close> (\<open>None\<close> for a failed lookup).
  \<open>u16_to_string\<close> is the standard library's decimal rendering of a port, used when the
  client stores an address as text (\<open>addr.to_string()\<close>).
\<close>

datatype ip_addr = V4 "8 word" "8 word" "8 word" "8 word" | V6 "16 word list"

type_synonym socket_addr = "ip_addr \<times> u16"

text \<open>
  \<open>rsplitn(2, sep)\<close>: the text after the last separator, and the text before it if there
  is a separator.
\<close>

definition rsplitn2 :: "char \<Rightarrow> string \<Rightarrow> string \<times> string option" where
  "rsplitn2 sep s =
     (let after = rev (takeWhile (\<lambda>c. c \<noteq> sep) (rev s))
      in if length after = length s then (s, None)
         else (after, Some (take (length s - length after - 1) s)))"

text \<open>The digit loop of \<open>from_str_radix\<close> for \<open>u16\<close>, on the value as a natural number.\<close>

fun parse_digits :: "string \<Rightarrow> nat \<Rightarrow> nat option" where
  "parse_digits [] acc = Some acc"
| "parse_digits (c # cs) acc =
     (if 65535 < acc * 10 then None
      else if 48 \<le> (of_char c :: nat) \<and> (of_char c :: nat) \<le> 57 then
        (let acc' = acc * 10 + (of_char c - 48)
         in if 65535 < acc' then None else parse_digits cs acc')
      else None)"

definition parse_u16 :: "string \<Rightarrow> u16 option" where
  "parse_u16 s =
     (case s of
        [] \<Rightarrow> None
      | c # cs \<Rightarrow>
          (let digits = (if c = CHR ''+'' then cs else s)
           in if digits = [] then None else map_option of_nat (parse_digits digits 0)))"

definition parse_addr :: "(string \<Rightarrow> u16 \<Rightarrow> socket_addr list option) \<Rightarrow> string \<Rightarrow> socket_addr option" where
  "parse_addr resolve input =
     (let (host, port) =
        (case rsplitn2 CHR '':'' input of
           (port, Some host) \<Rightarrow> (host, parse_u16 port)
         | (host, None) \<Rightarrow> (host, Some DEFAULT_PORT))
      in case port of
           None \<Rightarrow> None
         | Some p \<Rightarrow>
             (case resolve host p of
                None \<Rightarrow> None
              | Some addrs \<Rightarrow> (case addrs of [] \<Rightarrow> None | a # _ \<Rightarrow> Some a)))"

fun dec_digits :: "nat \<Rightarrow> string" where
  "dec_digits n =
     (if n < 10 then [char_of (48 + n)] else dec_digits (n div 10) @ [char_of (48 + n mod 10)])"

declare dec_digits.simps [simp del]

definition u16_to_string :: "u16 \<Rightarrow> string" where
  "u16_to_string p = dec_digits (unat p)"

text \<open>
  The reference reading of a port: every character a decimal digit, and the number they
  denote without any bound.
\<close>

definition is_digit :: "char \<Rightarrow> bool" where
  "is_digit c \<longleftrightarrow> 48 \<le> (of_char c :: nat) \<and> (of_char c :: nat) \<le> 57"

definition dec_value :: "nat \<Rightarrow> string \<Rightarrow> nat" where
  "dec_value acc ds = foldl (\<lambda>v c. v * 10 + (of_char c - 48)) acc ds"

subsection \<open>Splitting and port parsing\<close>

lemma rsplitn2_no_sep: "sep \<notin> set s \<Longrightarrow> rsplitn2 sep s = (s, None)"
proof -
  assume "sep \<notin> set s"
  then have tw: "takeWhile (\<lambda>c. c \<noteq> sep) (rev s) = rev s" by auto
  show ?thesis unfolding rsplitn2_def Let_def tw by simp
qed

lemma rsplitn2_last_sep: "sep \<notin> set p \<Longrightarrow> rsplitn2 sep (h @ sep # p) = (p, Some h)"
proof -
  assume p: "sep \<notin> set p"
  then have "takeWhile (\<lambda>c. c \<noteq> sep) (rev p @ sep # rev h) = rev p"
    by (subst takeWhile_append2) auto
  then show ?thesis by (simp add: rsplitn2_def)
qed

lemma parse_digits_append:
  "parse_digits (xs @ ys) acc = Option.bind (parse_digits xs acc) (parse_digits ys)"
  by (induction xs acc rule: parse_digits.induct) (simp_all add: Let_def)

lemma parse_digits_digit:
  "d < 10 \<Longrightarrow> acc * 10 + d \<le> 65535 \<Longrightarrow> parse_digits [char_of (48 + d)] acc = Some (acc * 10 + d)"
  by (simp add: Let_def)

lemma dec_digits_Cons: "\<exists>d ds. dec_digits n = char_of (48 + d :: nat) # ds \<and> d < 10"
proof (induction n rule: dec_digits.induct)
  case (1 n)
  show ?case
  proof (cases "n < 10")
    case True
    then have "dec_digits n = char_of (48 + n) # []" by (simp add: dec_digits.simps [of n])
    with True show ?thesis by blast
  next
    case False
    with "1.IH" obtain d ds where "dec_digits (n div 10) = char_of (48 + d :: nat) # ds" "d < 10"
      by blast
    with False have "dec_digits n = char_of (48 + d) # (ds @ [char_of (48 + n mod 10)])"
      by (simp add: dec_digits.simps [of n])
    with \<open>d < 10\<close> show ?thesis by blast
  qed
qed

lemma parse_digits_dec:
  "acc * 10 ^ length (dec_digits n) + n \<le> 65535 \<Longrightarrow>
   parse_digits (dec_digits n) acc = Some (acc * 10 ^ length (dec_digits n) + n)"
proof (induction n arbitrary: acc rule: dec_digits.induct)
  case (1 n)
  show ?case
  proof (cases "n < 10")
    case True
    then have "dec_digits n = [char_of (48 + n)]" by (simp add: dec_digits.simps [of n])
    with True "1.prems" show ?thesis by (simp add: parse_digits_digit)
  next
    case False
    let ?k = "length (dec_digits (n div 10))"
    have dn: "dec_digits n = dec_digits (n div 10) @ [char_of (48 + n mod 10)]"
      using False by (simp add: dec_digits.simps [of n])
    have eq: "acc * 10 ^ length (dec_digits n) + n = (acc * 10 ^ ?k + n div 10) * 10 + n mod 10"
      by (simp add: dn algebra_simps)
    define v where "v = acc * 10 ^ ?k + n div 10"
    have bound: "v * 10 + n mod 10 \<le> 65535" using "1.prems" eq by (simp add: v_def)
    then have "v \<le> 65535" by simp
    then have "parse_digits (dec_digits (n div 10)) acc = Some v"
      using "1.IH" False by (simp add: v_def)
    moreover have "parse_digits [char_of (48 + n mod 10)] v = Some (v * 10 + n mod 10)"
      using bound by (intro parse_digits_digit) simp_all
    ultimately show ?thesis
      by (simp add: dn parse_digits_append eq v_def)
  qed
qed

lemma parse_u16_to_string: "parse_u16 (u16_to_string p) = Some p"
proof -
  have "unat p \<le> 65535" using unsigned_less [of p, where 'a = nat] by simp
  then have digits: "parse_digits (dec_digits (unat p)) 0 = Some (unat p)"
    using parse_digits_dec [of 0 "unat p"] by simp
  obtain d ds where hd: "dec_digits (unat p) = char_of (48 + d :: nat) # ds" "d < 10"
    using dec_digits_Cons by blast
  then have "of_char (char_of (48 + d)) \<noteq> (of_char CHR ''+'' :: nat)" by simp
  then have "char_of (48 + d) \<noteq> CHR ''+''" by metis
  with hd digits show ?thesis by (simp add: parse_u16_def u16_to_string_def)
qed

lemma dec_value_ge: "acc * 10 ^ length ds \<le> dec_value acc ds"
proof (induction ds arbitrary: acc)
  case Nil
  then show ?case by (simp add: dec_value_def)
next
  case (Cons c cs)
  have "(acc * 10) * 10 ^ length cs \<le> dec_value (acc * 10 + (of_char c - 48)) cs"
    using Cons.IH [of "acc * 10 + (of_char c - 48)"] by (meson add_le_cancel_left le_add1 mult_le_mono1 order_trans)
  then show ?case by (simp add: dec_value_def mult.assoc)
qed

lemma parse_digits_ref:
  "acc \<le> 65535 \<Longrightarrow> parse_digits ds acc =
     (if list_all is_digit ds \<and> dec_value acc ds \<le> 65535 then Some (dec_value acc ds) else None)"
proof (induction ds arbitrary: acc)
  case Nil
  then show ?case by (simp add: dec_value_def)
next
  case (Cons c cs)
  have step: "dec_value acc (c # cs) = dec_value (acc * 10 + (of_char c - 48)) cs"
    by (simp add: dec_value_def)
  have ge1: "acc * 10 + (of_char c - 48) \<le> dec_value (acc * 10 + (of_char c - 48)) cs"
  proof -
    have "acc * 10 + (of_char c - 48) \<le> (acc * 10 + (of_char c - 48)) * 10 ^ length cs" by simp
    also have "\<dots> \<le> dec_value (acc * 10 + (of_char c - 48)) cs" by (rule dec_value_ge)
    finally show ?thesis .
  qed
  then have ge: "acc * 10 \<le> dec_value acc (c # cs)" using step by simp
  show ?case
  proof (cases "65535 < acc * 10")
    case True
    with ge show ?thesis by simp
  next
    case False
    let ?a = "acc * 10 + (of_char c - 48)"
    show ?thesis
    proof (cases "is_digit c")
      case False
      then have "parse_digits (c # cs) acc = None"
        using \<open>\<not> 65535 < acc * 10\<close> by (auto simp: is_digit_def)
      with False show ?thesis by simp
    next
      case True
      then have pd: "parse_digits (c # cs) acc = (if 65535 < ?a then None else parse_digits cs ?a)"
        using \<open>\<not> 65535 < acc * 10\<close> by (simp add: is_digit_def Let_def)
      show ?thesis
      proof (cases "65535 < ?a")
        case True
        with pd ge1 step show ?thesis by simp
      next
        case False
        with pd Cons.IH [of ?a] step \<open>is_digit c\<close> show ?thesis by simp
      qed
    qed
  qed
qed

lemma dec_digits_is_digit: "list_all is_digit (dec_digits n)"
proof (induction n rule: dec_digits.induct)
  case (1 n)
  have "is_digit (char_of (48 + d)) " if "d < 10" for d :: nat
    using that by (simp add: is_digit_def)
  then show ?case using "1.IH" by (simp add: dec_digits.simps [of n])
qed

lemma length_dec_digits: "n < 10 ^ Suc k \<Longrightarrow> length (dec_digits n) \<le> Suc k"
proof (induction n arbitrary: k rule: dec_digits.induct)
  case (1 n)
  show ?case
  proof (cases "n < 10")
    case True
    then show ?thesis by (simp add: dec_digits.simps [of n])
  next
    case False
    then obtain k' where k: "k = Suc k'" using "1.prems" by (cases k) auto
    have "n div 10 < 10 ^ Suc k'" using "1.prems" k by (simp add: div_less_iff_less_mult mult.commute)
    then show ?thesis using "1.IH" False k by (simp add: dec_digits.simps [of n])
  qed
qed

lemma colon_not_digit: "\<not> is_digit CHR '':''"
  by (simp add: is_digit_def)

lemma colon_notin_u16_to_string: "CHR '':'' \<notin> set (u16_to_string p)"
  using dec_digits_is_digit [of "unat p"] colon_not_digit
  by (auto simp: u16_to_string_def list_all_iff)

subsection \<open>Properties of address parsing\<close>

text \<open>
  C34: An address written as a host, a colon and a port printed by \<open>u16_to_string\<close> is
  split at that colon: the host and the port are passed to the resolver and its first
  address is returned.
\<close>

theorem parse_addr_host_port:
  "parse_addr resolve (host @ CHR '':'' # u16_to_string p) =
     Option.bind (resolve host p) (\<lambda>as. if as = [] then None else Some (hd as))"
  by (simp add: parse_addr_def rsplitn2_last_sep colon_notin_u16_to_string parse_u16_to_string
      split: option.split list.split)

text \<open>
  C35: Printing a port and parsing it back gives the port; the printed form is one to five
  decimal digits.
\<close>

theorem u16_to_string_roundtrip:
  "parse_u16 (u16_to_string p) = Some p \<and> list_all is_digit (u16_to_string p) \<and>
   u16_to_string p \<noteq> [] \<and> length (u16_to_string p) \<le> 5"
proof -
  have "unat p < 10 ^ Suc 4" using unsigned_less [of p, where 'a = nat] by simp
  then have "length (u16_to_string p) \<le> 5"
    using length_dec_digits [of "unat p" 4] by (simp add: u16_to_string_def)
  moreover have "u16_to_string p \<noteq> []"
    using dec_digits_Cons [of "unat p"] by (auto simp: u16_to_string_def)
  ultimately show ?thesis
    using parse_u16_to_string dec_digits_is_digit by (simp add: u16_to_string_def)
qed

text \<open>
  C36: The port parser with its overflow checks on every step is the reference reading: after
  an optional \<open>+\<close>, a non-empty string of decimal digits whose value is at most 65535
  gives that value, and everything else is rejected.
\<close>

theorem parse_u16_ref:
  "parse_u16 s =
     (case s of
        [] \<Rightarrow> None
      | c # cs \<Rightarrow>
          (let ds = (if c = CHR ''+'' then cs else s)
           in if ds \<noteq> [] \<and> list_all is_digit ds \<and> dec_value 0 ds \<le> 65535
              then Some (of_nat (dec_value 0 ds)) else None))"
  by (cases s) (simp_all add: parse_u16_def parse_digits_ref Let_def)

text \<open>
  C37: An input without a colon is a host name, resolved with the default port
  \<open>DEFAULT_PORT\<close>.
\<close>

theorem parse_addr_default_port:
  assumes "CHR '':'' \<notin> set input"
  shows "parse_addr resolve input =
     Option.bind (resolve input DEFAULT_PORT) (\<lambda>as. if as = [] then None else Some (hd as))"
  using assms by (simp add: parse_addr_def rsplitn2_no_sep split: option.split list.split)

text \<open>
  C38: When the text after the last colon is not a port, the address is rejected without
  calling the resolver (the start-up loop then skips the row).
\<close>

theorem parse_addr_bad_port:
  assumes "CHR '':'' \<notin> set port" "parse_u16 port = None"
  shows "parse_addr resolve (host @ CHR '':'' # port) = None"
  using assms by (simp add: parse_addr_def rsplitn2_last_sep)

text \<open>
  IPv6 literals are split at their last colon: the bare literal \<open>::1\<close> is read as host
  \<open>:\<close> with port 1, and in the bracketed form \<open>[::1]:8439\<close> the brackets stay in the
  host text passed to the resolver.
\<close>

theorem parse_addr_ipv6_literal:
  "parse_addr resolve ''::1'' = Option.bind (resolve '':'' 1) (\<lambda>as. if as = [] then None else Some (hd as)) \<and>
   parse_addr resolve ''[::1]:8439'' = Option.bind (resolve ''[::1]'' 8439) (\<lambda>as. if as = [] then None else Some (hd as))"
proof -
  have "rsplitn2 CHR '':'' ''::1'' = (''1'', Some '':'')"
    using rsplitn2_last_sep [of "CHR '':''" "''1''" "'':''"] by simp
  moreover have "rsplitn2 CHR '':'' ''[::1]:8439'' = (''8439'', Some ''[::1]'')"
    using rsplitn2_last_sep [of "CHR '':''" "''8439''" "''[::1]''"] by simp
  ultimately show ?thesis
    by (simp add: parse_addr_def parse_u16_def Let_def split: option.split list.split)
qed

subsection \<open>Witnesses\<close>

theorem parse_addr_default_port_witness:
  "parse_addr (\<lambda>h p. Some [(V4 127 0 0 1, p)]) ''localhost'' = Some (V4 127 0 0 1, DEFAULT_PORT)"
  by (subst parse_addr_default_port) simp_all

theorem parse_addr_bad_port_witness:
  "parse_addr (\<lambda>h p. Some [(V4 127 0 0 1, p)]) ''example.com:99999'' = None"
proof -
  have "parse_u16 ''99999'' = None" by (simp add: parse_u16_def Let_def)
  from parse_addr_bad_port [of "''99999''", OF _ this, of "\<lambda>h p. Some [(V4 127 0 0 1, p)]" "''example.com''"]
  show ?thesis by simp
qed

end
