(* ===== verification/Dial.thy ===== *)
theory Dial
  imports Messages Typing Addr
begin

text \<open>
  The session handle and the dial of \<open>src/src/connections.rs\<close>: \<open>Synac\<close> (a
  session with its mirrored state, message store, typing tracker, selected channel and
  user id) and \<open>Connections::connect\<close>, which authenticates with a token, falls back to
  a password, and stores the token the server issues. The network is not modelled: the
  outcome of each transport call during a dial is an input (\<open>Transport\<close>), and the dial
  returns its result together with its observable effects in order. \<open>None\<close> as a
  result is a panic of the dial's thread.
\<close>

subsection \<open>Errors and the session\<close>

datatype io_error = BrokenPipe | OtherIoError nat

text \<open>\<open>ConnectionError\<close> of the source; \<open>Error\<close> is the boxed \<open>failure::Error\<close>.\<close>

datatype ConnectionError = InvalidPacket packet | InvalidToken | InvalidPassword

datatype Error = ConnError ConnectionError | IoError io_error | OtherError nat

record Session =
  sess_addr :: socket_addr
  sess_hash :: string
  nonblocking :: bool

record Synac =
  addr :: socket_addr
  session :: Session
  state :: State
  current_channel :: "usize option"
  synac_messages :: Messages
  synac_typing :: Typing
  user :: usize

definition Synac_new :: "socket_addr \<Rightarrow> Session \<Rightarrow> usize \<Rightarrow> Synac" where
  "Synac_new a s u =
     \<lparr>addr = a, session = s, state = State_new, current_channel = None,
      synac_messages = Messages_new, synac_typing = Typing_new, user = u\<rparr>"

subsection \<open>The dial: Connections::connect\<close>

text \<open>
  One dial's environment: whether \<open>Session::new\<close> (TCP and TLS set-up) fails, whether
  writing a packet fails, the reply \<open>session.read()\<close> returns after a login packet, whether
  \<open>set_nonblocking\<close> fails, and whether the SQLite \<open>UPDATE\<close> of the token succeeds.
\<close>

record Transport =
  tr_open :: "Error option"
  tr_send :: "packet \<Rightarrow> Error option"
  tr_reply :: "packet \<Rightarrow> Error + packet"
  tr_nonblock :: "Error option"
  tr_db_ok :: bool

text \<open>The observable effects of a dial, in order.\<close>

datatype dial_effect = Sent packet | PasswordAsked | TokenStored string socket_addr

datatype 'a flow = Return 'a | FallThrough

text \<open>The token branch (\<open>if let Some(token) = token\<close>).\<close>

definition login_token :: "Transport \<Rightarrow> string \<Rightarrow> socket_addr \<Rightarrow> Session \<Rightarrow> string \<Rightarrow>
    (Error + Synac) flow \<times> dial_effect list" where
  "login_token tr nick a sess token =
     (let p = Login False nick None (Some token)
      in case tr_send tr p of
           Some e \<Rightarrow> (Return (Inl e), [])
         | None \<Rightarrow>
             (case tr_reply tr p of
                Inl e \<Rightarrow> (Return (Inl e), [Sent p])
              | Inr (LoginSuccess _ uid _) \<Rightarrow>
                  (case tr_nonblock tr of
                     Some e \<Rightarrow> (Return (Inl e), [Sent p])
                   | None \<Rightarrow> (Return (Inr (Synac_new a (sess\<lparr>nonblocking := True\<rparr>) uid)), [Sent p]))
              | Inr (Err ERR_UNKNOWN_USER) \<Rightarrow> (FallThrough, [Sent p])
              | Inr (Err ERR_LOGIN_INVALID) \<Rightarrow> (FallThrough, [Sent p])
              | Inr q \<Rightarrow> (Return (Inl (ConnError (InvalidPacket q))), [Sent p])))"

text \<open>
  The password branch (\<open>if let Some((password, db)) = password()\<close>); the token the
  server issues is written to the database with \<open>.unwrap()\<close>, which panics on failure.
\<close>

definition login_password :: "Transport \<Rightarrow> string \<Rightarrow> socket_addr \<Rightarrow> Session \<Rightarrow> string \<Rightarrow>
    (Error + Synac) option \<times> dial_effect list" where
  "login_password tr nick a sess pw =
     (let p = Login False nick (Some pw) None
      in case tr_send tr p of
           Some e \<Rightarrow> (Some (Inl e), [])
         | None \<Rightarrow>
             (case tr_reply tr p of
                Inl e \<Rightarrow> (Some (Inl e), [Sent p])
              | Inr (LoginSuccess _ uid tok) \<Rightarrow>
                  (if \<not> tr_db_ok tr then (None, [Sent p])
                   else (case tr_nonblock tr of
                           Some e \<Rightarrow> (Some (Inl e), [Sent p, TokenStored tok a])
                         | None \<Rightarrow> (Some (Inr (Synac_new a (sess\<lparr>nonblocking := True\<rparr>) uid)),
                                    [Sent p, TokenStored tok a])))
              | Inr (Err ERR_LOGIN_INVALID) \<Rightarrow> (Some (Inl (ConnError InvalidPassword)), [Sent p])
              | Inr q \<Rightarrow> (Some (Inl (ConnError (InvalidPacket q))), [Sent p])))"

text \<open>
  \<open>Connections::connect\<close>: open the session, try the token, fall through to the
  password provider (called exactly when the token branch did not return), and fail with
  \<open>InvalidToken\<close> when the provider gives no password. The provider's answer is the
  argument \<open>password\<close>; its call is the effect \<open>PasswordAsked\<close>.
\<close>

definition connect :: "Transport \<Rightarrow> string \<Rightarrow> socket_addr \<Rightarrow> string \<Rightarrow> string option \<Rightarrow>
    string option \<Rightarrow> (Error + Synac) option \<times> dial_effect list" where
  "connect tr nick a hash token password =
     (case tr_open tr of
        Some e \<Rightarrow> (Some (Inl e), [])
      | None \<Rightarrow>
          (let sess = \<lparr>sess_addr = a, sess_hash = hash, nonblocking = False\<rparr>;
               (fl, eff1) = (case token of
                               None \<Rightarrow> (FallThrough, [])
                             | Some t \<Rightarrow> login_token tr nick a sess t)
           in case fl of
                Return r \<Rightarrow> (Some r, eff1)
              | FallThrough \<Rightarrow>
                  (case password of
                     None \<Rightarrow> (Some (Inl (ConnError InvalidToken)), eff1 @ [PasswordAsked])
                   | Some pw \<Rightarrow>
                       (let (r, eff2) = login_password tr nick a sess pw
                        in (r, eff1 @ PasswordAsked # eff2)))))"

text \<open>Whether an effect is the write of a token to the database.\<close>

definition is_token_stored :: "dial_effect \<Rightarrow> bool" where
  "is_token_stored e = (case e of TokenStored _ _ \<Rightarrow> True | _ \<Rightarrow> False)"

subsection \<open>The shape of a dial\<close>

lemma login_token_effects:
  "snd (login_token tr nk a sess t) = [] \<or> snd (login_token tr nk a sess t) = [Sent (Login False nk None (Some t))]"
  by (simp add: login_token_def Let_def split: option.split sum.split packet.split err_code.split)

lemma login_token_other_reply:
  assumes "tr_send tr (Login False nk None (Some t)) = None"
    "tr_reply tr (Login False nk None (Some t)) = Inr q"
    "\<forall>b uid tk. q \<noteq> LoginSuccess b uid tk" "q \<noteq> Err ERR_UNKNOWN_USER" "q \<noteq> Err ERR_LOGIN_INVALID"
  shows "login_token tr nk a sess t = (Return (Inl (ConnError (InvalidPacket q))), [Sent (Login False nk None (Some t))])"
  using assms by (cases q) (auto simp: login_token_def Let_def split: err_code.split)

lemma login_password_stored:
  assumes "TokenStored tk a' \<in> set (snd (login_password tr nk a sess pw))"
  shows "snd (login_password tr nk a sess pw) = [Sent (Login False nk (Some pw) None), TokenStored tk a]
    \<and> a' = a \<and> (\<exists>b uid. tr_reply tr (Login False nk (Some pw) None) = Inr (LoginSuccess b uid tk))"
  using assms by (auto simp add: login_password_def Let_def
     split: option.splits sum.splits packet.splits err_code.splits if_splits)

text \<open>
  Every dial's effects are some packets sent by the token branch, followed by nothing, by the
  password request alone (no password), or by the request and the password branch's effects.
\<close>

lemma connect_effects_shape:
  "\<exists>eff1. (\<forall>x\<in>set eff1. \<exists>p. x = Sent p) \<and>
     (snd (connect tr nk a h tok pw) = eff1 \<or>
      (pw = None \<and> snd (connect tr nk a h tok pw) = eff1 @ [PasswordAsked]) \<or>
      (\<exists>p. pw = Some p \<and> snd (connect tr nk a h tok pw) =
         eff1 @ PasswordAsked # snd (login_password tr nk a \<lparr>sess_addr = a, sess_hash = h, nonblocking = False\<rparr> p)))"
proof -
  let ?s = "\<lparr>sess_addr = a, sess_hash = h, nonblocking = False\<rparr>"
  have tok: "\<forall>x. x \<in> set (snd (login_token tr nk a ?s t)) \<longrightarrow> (\<exists>p. x = Sent p)" for t
    using login_token_effects [of tr nk a ?s t] by auto
  obtain eff1 fl where e1: "(case tok of None \<Rightarrow> (FallThrough, []) | Some t \<Rightarrow> login_token tr nk a ?s t) = (fl, eff1)"
    and s1: "\<forall>x \<in> set eff1. \<exists>p. x = Sent p"
    using tok by (cases tok) (auto, metis prod.collapse)
  show ?thesis
  proof (cases "tr_open tr")
    case (Some e)
    then show ?thesis by (intro exI [of _ "[]"]) (simp add: connect_def)
  next
    case None
    show ?thesis
    proof (rule exI [of _ eff1], intro conjI)
      show "\<forall>x\<in>set eff1. \<exists>p. x = Sent p" by (rule s1)
    qed (use e1 None in \<open>auto simp add: connect_def split: option.splits flow.splits prod.splits\<close>)
  qed
qed

lemma sent_only_counts:
  assumes "\<forall>x\<in>set eff. \<exists>p. x = Sent p"
  shows "count_list eff PasswordAsked = 0" "filter is_token_stored eff = []"
  using assms by (induction eff) (auto simp: is_token_stored_def)

lemma connect_password_None:
  "fst (connect tr nk a h tok None) \<noteq> None"
  by (simp add: connect_def Let_def split: option.split flow.split prod.split)

lemma connect_Ok_session:
  "fst (connect tr nk a h tok pw) = Some (Inr s) \<Longrightarrow>
     s = Synac_new a \<lparr>sess_addr = a, sess_hash = h, nonblocking = True\<rparr> (user s)"
  by (auto simp add: connect_def login_token_def login_password_def Let_def Synac_new_def
           split: option.splits flow.splits prod.splits sum.splits packet.splits err_code.splits if_splits)

subsection \<open>Properties of the dial\<close>

text \<open>
  C9: With a token the server accepts, the dial sends one token login, never asks for a
  password, and returns a fresh non-blocking session for the user id of the reply.
\<close>

theorem connect_token_success:
  assumes "tr_open tr = None" "tr_send tr (Login False nk None (Some t)) = None"
    "tr_reply tr (Login False nk None (Some t)) = Inr (LoginSuccess b uid tk)" "tr_nonblock tr = None"
  shows "connect tr nk a h (Some t) pw =
    (Some (Inr (Synac_new a \<lparr>sess_addr = a, sess_hash = h, nonblocking = True\<rparr> uid)),
     [Sent (Login False nk None (Some t))])"
  using assms by (simp add: connect_def login_token_def)

text \<open>
  C10: When the server answers the token login with "unknown user" or "invalid login", the
  dial does not fail: it asks for a password once and continues with the password login on
  the same session, whose result and effects it returns.
\<close>

theorem connect_token_fallback:
  assumes "tr_open tr = None" "tr_send tr (Login False nk None (Some t)) = None"
    "tr_reply tr (Login False nk None (Some t)) \<in> {Inr (Err ERR_UNKNOWN_USER), Inr (Err ERR_LOGIN_INVALID)}"
  shows "connect tr nk a h (Some t) (Some pw) =
    (let (r, eff) = login_password tr nk a \<lparr>sess_addr = a, sess_hash = h, nonblocking = False\<rparr> pw
     in (r, Sent (Login False nk None (Some t)) # PasswordAsked # eff))"
  using assms by (auto simp add: connect_def login_token_def split: prod.split)

text \<open>
  C11: A dial writes a token to the database at most once, only for its own address, only
  after asking for a password, and the token written is the one the server issued in reply
  to the password login.
\<close>

theorem connect_token_stored:
  assumes "TokenStored tk a' \<in> set (snd (connect tr nk a h tok pw))"
  shows "a' = a \<and> (\<exists>p b uid. pw = Some p \<and> tr_reply tr (Login False nk (Some p) None) = Inr (LoginSuccess b uid tk))
    \<and> count_list (snd (connect tr nk a h tok pw)) PasswordAsked = 1
    \<and> length (filter is_token_stored (snd (connect tr nk a h tok pw))) = 1"
proof -
  let ?s = "\<lparr>sess_addr = a, sess_hash = h, nonblocking = False\<rparr>"
  obtain eff1 where s1: "\<forall>x\<in>set eff1. \<exists>p. x = Sent p" and
    shape: "snd (connect tr nk a h tok pw) = eff1 \<or>
      (pw = None \<and> snd (connect tr nk a h tok pw) = eff1 @ [PasswordAsked]) \<or>
      (\<exists>p. pw = Some p \<and> snd (connect tr nk a h tok pw) = eff1 @ PasswordAsked # snd (login_password tr nk a ?s p))"
    using connect_effects_shape by blast
  have "TokenStored tk a' \<notin> set eff1" using s1 by auto
  then obtain p where pw: "pw = Some p"
    and eff: "snd (connect tr nk a h tok pw) = eff1 @ PasswordAsked # snd (login_password tr nk a ?s p)"
    using shape assms by auto
  then have "TokenStored tk a' \<in> set (snd (login_password tr nk a ?s p))"
    using assms \<open>TokenStored tk a' \<notin> set eff1\<close> by auto
  from login_password_stored [OF this] show ?thesis
    using pw eff sent_only_counts [OF s1] by (auto simp: is_token_stored_def)
qed

text \<open>
  C12: With neither a token nor a password the dial asks for a password, sends nothing, and
  fails with \<open>InvalidToken\<close> ("no usable credential").
\<close>

theorem connect_no_credential:
  assumes "tr_open tr = None"
  shows "connect tr nk a h None None = (Some (Inl (ConnError InvalidToken)), [PasswordAsked])"
  using assms by (simp add: connect_def)

text \<open>
  C13: Any other answer to the token login fails the dial with \<open>InvalidPacket\<close> carrying
  that answer, without asking for a password.
\<close>

theorem connect_token_invalid_packet:
  assumes "tr_open tr = None" "tr_send tr (Login False nk None (Some t)) = None"
    "tr_reply tr (Login False nk None (Some t)) = Inr q"
    "\<forall>b uid tk. q \<noteq> LoginSuccess b uid tk" "q \<noteq> Err ERR_UNKNOWN_USER" "q \<noteq> Err ERR_LOGIN_INVALID"
  shows "connect tr nk a h (Some t) pw = (Some (Inl (ConnError (InvalidPacket q))), [Sent (Login False nk None (Some t))])"
  using assms by (simp add: connect_def login_token_other_reply)

text \<open>
  A session a dial returns is for the dialled address, is non-blocking, has an empty
  message store and typing tracker and no channel selected.
\<close>

theorem connect_Ok_nonblocking:
  assumes "fst (connect tr nk a h tok pw) = Some (Inr s)"
  shows "addr s = a \<and> sess_addr (session s) = a \<and> nonblocking (session s) \<and>
    synac_messages s = Messages_new \<and> synac_typing s = Typing_new \<and> current_channel s = None"
  using connect_Ok_session [OF assms] by (metis Synac.select_convs Session.select_convs Synac_new_def)

subsection \<open>Witnesses\<close>

text \<open>
  The dial properties on concrete transports: a server at \<open>127.0.0.1:8439\<close> that
  accepts every login, and one that rejects the stored token and accepts the password.
\<close>

theorem connect_token_success_witness:
  "connect \<lparr>tr_open = None, tr_send = (\<lambda>_. None), tr_reply = (\<lambda>_. Inr (LoginSuccess False 7 ''tk'')),
      tr_nonblock = None, tr_db_ok = True\<rparr> ''me'' (V4 127 0 0 1, 8439) ''h'' (Some ''t'') None =
    (Some (Inr (Synac_new (V4 127 0 0 1, 8439)
       \<lparr>sess_addr = (V4 127 0 0 1, 8439), sess_hash = ''h'', nonblocking = True\<rparr> 7)),
     [Sent (Login False ''me'' None (Some ''t''))])"
  by (rule connect_token_success [where b = False and tk = "''tk''"]) simp_all

theorem connect_token_fallback_witness:
  "connect \<lparr>tr_open = None, tr_send = (\<lambda>_. None),
      tr_reply = (\<lambda>p. if p = Login False ''me'' None (Some ''t'') then Inr (Err ERR_LOGIN_INVALID)
                     else Inr (LoginSuccess False 7 ''new'')),
      tr_nonblock = None, tr_db_ok = True\<rparr> ''me'' (V4 127 0 0 1, 8439) ''h'' (Some ''t'') (Some ''pw'') =
    (Some (Inr (Synac_new (V4 127 0 0 1, 8439)
       \<lparr>sess_addr = (V4 127 0 0 1, 8439), sess_hash = ''h'', nonblocking = True\<rparr> 7)),
     [Sent (Login False ''me'' None (Some ''t'')), PasswordAsked,
      Sent (Login False ''me'' (Some ''pw'') None), TokenStored ''new'' (V4 127 0 0 1, 8439)])"
  by (subst connect_token_fallback) (simp_all add: login_password_def)

theorem connect_token_stored_witness:
  "TokenStored ''new'' (V4 127 0 0 1, 8439) \<in> set (snd (connect \<lparr>tr_open = None, tr_send = (\<lambda>_. None),
      tr_reply = (\<lambda>p. if p = Login False ''me'' None (Some ''t'') then Inr (Err ERR_UNKNOWN_USER)
                     else Inr (LoginSuccess False 7 ''new'')),
      tr_nonblock = None, tr_db_ok = True\<rparr> ''me'' (V4 127 0 0 1, 8439) ''h'' (Some ''t'') (Some ''pw'')))
   \<and> count_list (snd (connect \<lparr>tr_open = None, tr_send = (\<lambda>_. None),
      tr_reply = (\<lambda>p. if p = Login False ''me'' None (Some ''t'') then Inr (Err ERR_UNKNOWN_USER)
                     else Inr (LoginSuccess False 7 ''new'')),
      tr_nonblock = None, tr_db_ok = True\<rparr> ''me'' (V4 127 0 0 1, 8439) ''h'' (Some ''t'') (Some ''pw''))) PasswordAsked = 1"
proof -
  have h: "TokenStored ''new'' (V4 127 0 0 1, 8439) \<in> set (snd (connect \<lparr>tr_open = None, tr_send = (\<lambda>_. None),
      tr_reply = (\<lambda>p. if p = Login False ''me'' None (Some ''t'') then Inr (Err ERR_UNKNOWN_USER)
                     else Inr (LoginSuccess False 7 ''new'')),
      tr_nonblock = None, tr_db_ok = True\<rparr> ''me'' (V4 127 0 0 1, 8439) ''h'' (Some ''t'') (Some ''pw'')))"
    by (simp add: connect_def login_token_def login_password_def)
  show ?thesis using h connect_token_stored [OF h] by blast
qed

theorem connect_no_credential_witness:
  "connect \<lparr>tr_open = None, tr_send = (\<lambda>_. None), tr_reply = (\<lambda>_. Inr (LoginSuccess False 7 ''tk'')),
      tr_nonblock = None, tr_db_ok = True\<rparr> ''me'' (V4 127 0 0 1, 8439) ''h'' None None =
    (Some (Inl (ConnError InvalidToken)), [PasswordAsked])"
  by (rule connect_no_credential) simp

theorem connect_token_invalid_packet_witness:
  "connect \<lparr>tr_open = None, tr_send = (\<lambda>_. None), tr_reply = (\<lambda>_. Inr (TypingReceive 1 2)),
      tr_nonblock = None, tr_db_ok = True\<rparr> ''me'' (V4 127 0 0 1, 8439) ''h'' (Some ''t'') (Some ''pw'') =
    (Some (Inl (ConnError (InvalidPacket (TypingReceive 1 2)))), [Sent (Login False ''me'' None (Some ''t''))])"
  by (rule connect_token_invalid_packet) simp_all

theorem connect_Ok_nonblocking_witness:
  "nonblocking (session (Synac_new (V4 127 0 0 1, 8439)
       \<lparr>sess_addr = (V4 127 0 0 1, 8439), sess_hash = ''h'', nonblocking = True\<rparr> 7))"
proof -
  have h: "fst (connect \<lparr>tr_open = None, tr_send = (\<lambda>_. None), tr_reply = (\<lambda>_. Inr (LoginSuccess False 7 ''tk'')),
      tr_nonblock = None, tr_db_ok = True\<rparr> ''me'' (V4 127 0 0 1, 8439) ''h'' (Some ''t'') None) =
    Some (Inr (Synac_new (V4 127 0 0 1, 8439)
       \<lparr>sess_addr = (V4 127 0 0 1, 8439), sess_hash = ''h'', nonblocking = True\<rparr> 7))"
    by (simp add: connect_def login_token_def)
  show ?thesis using connect_Ok_nonblocking [OF h] by blast
qed

end
