(* ===== verification/Connections.thy ===== *)
theory Connections
  imports Dial
begin

text \<open>
  The registry of \<open>src/src/connections.rs\<close>: a \<open>Connection\<close> is a background dial
  in flight (\<open>Connecting\<close>, the join handle, which carries the outcome of its thread:
  \<open>None\<close> when the thread panicked) or its result (\<open>Connected\<close>); \<open>Connections\<close>
  maps server addresses to connections. The operations \<open>new\<close>, \<open>insert\<close>,
  \<open>remove\<close>, \<open>set_current\<close>, \<open>execute\<close>, \<open>foreach\<close> and \<open>try_read\<close> are
  functions on the registry; the hash map's iteration order and what each non-blocking read
  returns are inputs. The lifecycle of a connection is the step relation \<open>conn_step\<close>,
  the registry's operations the relations \<open>inplace_step\<close> and \<open>reg_step\<close>.
\<close>

subsection \<open>Connection\<close>

datatype Connection = Connecting "(Error + Synac) option" | Connected "Error + Synac"

text \<open>
  \<open>Connection::join\<close>: a pending dial is joined (\<open>handle.join().unwrap()\<close>, a panic
  when the thread panicked) and replaced by its result; a resolved one is returned as it is.
\<close>

definition Connection_join :: "Connection \<Rightarrow> (Connection \<times> (Error + Synac)) option" where
  "Connection_join c =
     (case c of
        Connecting h \<Rightarrow> map_option (\<lambda>r. (Connected r, r)) h
      | Connected r \<Rightarrow> Some (Connected r, r))"

subsection \<open>The registry\<close>

text \<open>
  \<open>Connections\<close>: the selected server, the nickname and the connection map. The map is
  a \<open>HashMap\<close>; the loops over it take its iteration order as an argument.
\<close>

record Connections =
  current_server :: "socket_addr option"
  nick :: string
  servers :: "socket_addr \<rightharpoonup> Connection"

text \<open>A row \<open>(ip, hash, token)\<close> of \<open>SELECT ip, hash, token FROM servers\<close>.\<close>

type_synonym server_row = "string \<times> string \<times> string option"

text \<open>
  The loop of \<open>Connections::new\<close>: rows whose address does not parse are skipped; every
  other row gets a background dial with the password provider \<open>|| None\<close>. The join
  handle carries the thread's outcome, the first component of \<open>connect\<close>.
\<close>

fun spawn_rows :: "(string \<Rightarrow> u16 \<Rightarrow> socket_addr list option) \<Rightarrow> (socket_addr \<Rightarrow> Transport) \<Rightarrow>
    string \<Rightarrow> server_row list \<Rightarrow> (socket_addr \<rightharpoonup> Connection) \<Rightarrow> (socket_addr \<rightharpoonup> Connection)" where
  "spawn_rows resolve net nk [] m = m"
| "spawn_rows resolve net nk ((ip, hash, token) # rows) m =
     (case parse_addr resolve ip of
        None \<Rightarrow> spawn_rows resolve net nk rows m
      | Some a \<Rightarrow>
          spawn_rows resolve net nk rows (m(a \<mapsto> Connecting (fst (connect (net a) nk a hash token None)))))"

definition Connections_new :: "(string \<Rightarrow> u16 \<Rightarrow> socket_addr list option) \<Rightarrow> (socket_addr \<Rightarrow> Transport) \<Rightarrow>
    server_row list \<Rightarrow> string \<Rightarrow> Connections" where
  "Connections_new resolve net rows nk =
     \<lparr>current_server = None, nick = nk, servers = spawn_rows resolve net nk rows Map.empty\<rparr>"

definition Connections_insert :: "socket_addr \<Rightarrow> Synac \<Rightarrow> Connections \<Rightarrow> Connections" where
  "Connections_insert a s cs = cs\<lparr>servers := (servers cs)(a \<mapsto> Connected (Inr s))\<rparr>"

definition Connections_remove :: "socket_addr \<Rightarrow> Connections \<Rightarrow> Connections" where
  "Connections_remove a cs = cs\<lparr>servers := (servers cs)(a := None)\<rparr>"

definition set_current :: "socket_addr option \<Rightarrow> Connections \<Rightarrow> Connections" where
  "set_current a cs = cs\<lparr>current_server := a\<rparr>"

text \<open>
  \<open>Connections::execute\<close>: the callback receives the joined result. Its \<open>Ok\<close> arm
  may change the session and may panic (\<open>None\<close>); its \<open>Err\<close> arm reads the error
  (no caller in \<open>main.rs\<close> changes it). The result is \<open>None\<close> on a panic,
  \<open>Some (cs', None)\<close> when the address is absent, \<open>Some (cs', Some out)\<close> otherwise.
\<close>

definition execute :: "socket_addr \<Rightarrow> (Synac \<Rightarrow> (Synac \<times> 'a) option) \<Rightarrow> (Error \<Rightarrow> 'a) \<Rightarrow>
    Connections \<Rightarrow> (Connections \<times> 'a option) option" where
  "execute a fs fe cs =
     (case servers cs a of
        None \<Rightarrow> Some (cs, None)
      | Some c \<Rightarrow>
          (case Connection_join c of
             None \<Rightarrow> None
           | Some (c', Inl e) \<Rightarrow> Some (cs\<lparr>servers := (servers cs)(a \<mapsto> c')\<rparr>, Some (fe e))
           | Some (_, Inr s) \<Rightarrow>
               map_option (\<lambda>(s', out). (cs\<lparr>servers := (servers cs)(a \<mapsto> Connected (Inr s'))\<rparr>, Some out))
                 (fs s)))"

text \<open>The loop of \<open>Connections::foreach\<close> over the addresses in iteration order.\<close>

fun foreach_loop :: "(Synac \<Rightarrow> Synac \<times> 'a) \<Rightarrow> socket_addr list \<Rightarrow> (socket_addr \<rightharpoonup> Connection) \<Rightarrow>
    'a list \<Rightarrow> ((socket_addr \<rightharpoonup> Connection) \<times> 'a list) option" where
  "foreach_loop f [] m outs = Some (m, outs)"
| "foreach_loop f (a # as) m outs =
     (case m a of
        None \<Rightarrow> foreach_loop f as m outs
      | Some c \<Rightarrow>
          (case Connection_join c of
             None \<Rightarrow> None
           | Some (c', Inl _) \<Rightarrow> foreach_loop f as (m(a \<mapsto> c')) outs
           | Some (_, Inr s) \<Rightarrow>
               (let (s', out) = f s in foreach_loop f as (m(a \<mapsto> Connected (Inr s'))) (outs @ [out]))))"

definition foreach :: "socket_addr list \<Rightarrow> (Synac \<Rightarrow> Synac \<times> 'a) \<Rightarrow> Connections \<Rightarrow>
    (Connections \<times> 'a list) option" where
  "foreach order f cs =
     map_option (\<lambda>(m, outs). (cs\<lparr>servers := m\<rparr>, outs)) (foreach_loop f order (servers cs) [])"

subsection \<open>Polling: Connections::try_read\<close>

text \<open>
  The body of \<open>try_read\<close> for one packet: the mirrored state is updated first, then the
  packet is dispatched to the message store or the typing tracker, giving the affected
  channel. \<open>now\<close> is the clock of \<open>Typing::insert\<close>, \<open>order\<close> the iteration order of
  the session's message map.
\<close>

definition dispatch :: "nat \<Rightarrow> usize list \<Rightarrow> packet \<Rightarrow> Synac \<Rightarrow> (Synac \<times> usize option) option" where
  "dispatch now order p s0 =
     (let s = s0\<lparr>state := State_update p (state s0)\<rparr>
      in case p of
           MessageReceive m _ \<Rightarrow>
             map_option (\<lambda>ms. (s\<lparr>synac_messages := ms\<rparr>, Some (msg_channel m)))
               (messages_add m (synac_messages s))
         | MessageDeleteReceive mid \<Rightarrow>
             map_option (\<lambda>(ms, c). (s\<lparr>synac_messages := ms\<rparr>, c))
               (messages_remove order mid (synac_messages s))
         | TypingReceive author channel \<Rightarrow>
             (if author \<noteq> user s
              then Some (s\<lparr>synac_typing := typing_insert now author channel (synac_typing s)\<rparr>, Some channel)
              else Some (s, None))
         | _ \<Rightarrow> Some (s, None))"

text \<open>
  The loop over the sessions. \<open>rd a\<close> is what the listener's non-blocking read on the
  session at \<open>a\<close> returns: an error, no packet yet, or a packet. An error returns from
  \<open>try_read\<close> at once (the \<open>?\<close>), keeping what the loop already changed; the
  callback \<open>cb\<close> is applied to every packet read and its results are collected.
\<close>

fun poll_loop :: "nat \<Rightarrow> (socket_addr \<Rightarrow> usize list) \<Rightarrow> (socket_addr \<Rightarrow> Error + packet option) \<Rightarrow>
    (Synac \<Rightarrow> packet \<Rightarrow> usize option \<Rightarrow> 'a) \<Rightarrow> socket_addr list \<Rightarrow> (socket_addr \<rightharpoonup> Connection) \<Rightarrow>
    'a list \<Rightarrow> ((socket_addr \<rightharpoonup> Connection) \<times> 'a list \<times> (Error + unit)) option" where
  "poll_loop now mord rd cb [] m outs = Some (m, outs, Inr ())"
| "poll_loop now mord rd cb (a # as) m outs =
     (case m a of
        None \<Rightarrow> poll_loop now mord rd cb as m outs
      | Some c \<Rightarrow>
          (case Connection_join c of
             None \<Rightarrow> None
           | Some (c', Inl _) \<Rightarrow> poll_loop now mord rd cb as (m(a \<mapsto> c')) outs
           | Some (c', Inr s) \<Rightarrow>
               (case rd a of
                  Inl e \<Rightarrow> Some (m(a \<mapsto> c'), outs, Inl e)
                | Inr None \<Rightarrow> poll_loop now mord rd cb as (m(a \<mapsto> c')) outs
                | Inr (Some p) \<Rightarrow>
                    (case dispatch now (mord a) p s of
                       None \<Rightarrow> None
                     | Some (s', ch) \<Rightarrow>
                         poll_loop now mord rd cb as (m(a \<mapsto> Connected (Inr s'))) (outs @ [cb s' p ch])))))"

text \<open>
  \<open>try_read\<close>: \<open>locked\<close> says whether \<open>servers.try_lock()\<close> fails; then nothing
  happens and the result is \<open>Ok(())\<close>.
\<close>

definition try_read :: "bool \<Rightarrow> nat \<Rightarrow> (socket_addr \<Rightarrow> usize list) \<Rightarrow> (socket_addr \<Rightarrow> Error + packet option) \<Rightarrow>
    (Synac \<Rightarrow> packet \<Rightarrow> usize option \<Rightarrow> 'a) \<Rightarrow> socket_addr list \<Rightarrow> Connections \<Rightarrow>
    (Connections \<times> 'a list \<times> (Error + unit)) option" where
  "try_read locked now mord rd cb order cs =
     (if locked then Some (cs, [], Inr ())
      else map_option (\<lambda>(m, outs, r). (cs\<lparr>servers := m\<rparr>, outs, r)) (poll_loop now mord rd cb order (servers cs) []))"

subsection \<open>Lifecycle and well-formedness\<close>

text \<open>
  The result a connection holds or will hold once joined (\<open>None\<close>: its thread panicked),
  and the lifecycle of one connection value: a pending dial becomes its result, and a
  resolved session may be changed in place by a callback. Nothing leads back to
  \<open>Connecting\<close>, and nothing turns a session into an error or back.
\<close>

definition conn_result :: "Connection \<Rightarrow> (Error + Synac) option" where
  "conn_result c = (case c of Connecting h \<Rightarrow> h | Connected r \<Rightarrow> Some r)"

inductive conn_step :: "Connection \<Rightarrow> Connection \<Rightarrow> bool" where
  resolve: "conn_step (Connecting (Some r)) (Connected r)"
| update: "conn_step (Connected (Inr s)) (Connected (Inr s'))"

text \<open>
  A session is well-formed when its message store and typing tracker are; a connection when
  its dial did not panic and a session it holds is well-formed; the registry when all its
  entries are.
\<close>

definition synac_ok :: "Synac \<Rightarrow> bool" where
  "synac_ok s \<longleftrightarrow> messages_inv (synac_messages s) \<and> typing_inv (synac_typing s)"

definition conn_ok :: "Connection \<Rightarrow> bool" where
  "conn_ok c \<longleftrightarrow>
     (case conn_result c of None \<Rightarrow> False | Some (Inl _) \<Rightarrow> True | Some (Inr s) \<Rightarrow> synac_ok s)"

definition map_ok :: "(socket_addr \<rightharpoonup> Connection) \<Rightarrow> bool" where
  "map_ok m \<longleftrightarrow> (\<forall>a c. m a = Some c \<longrightarrow> conn_ok c)"

definition registry_inv :: "Connections \<Rightarrow> bool" where
  "registry_inv cs \<longleftrightarrow> map_ok (servers cs)"

text \<open>
  A connection map \<open>m'\<close> evolves from \<open>m\<close> when it has the same addresses and
  every entry of \<open>m'\<close> is reached from the entry of \<open>m\<close> by lifecycle steps.
\<close>

definition evolves :: "(socket_addr \<rightharpoonup> Connection) \<Rightarrow> (socket_addr \<rightharpoonup> Connection) \<Rightarrow> bool" where
  "evolves m m' \<longleftrightarrow> dom m' = dom m \<and> (\<forall>a c. m a = Some c \<longrightarrow> (\<exists>c'. m' a = Some c' \<and> conn_step\<^sup>*\<^sup>* c c'))"

text \<open>The session a callback of \<open>foreach\<close> or \<open>try_read\<close> receives at an address.\<close>

definition live_session :: "(socket_addr \<rightharpoonup> Connection) \<Rightarrow> socket_addr \<Rightarrow> Synac option" where
  "live_session m a = (case m a of None \<Rightarrow> None | Some c \<Rightarrow>
     (case conn_result c of Some (Inr s) \<Rightarrow> Some s | _ \<Rightarrow> None))"

text \<open>
  The operations that change the registry in place, as a step relation: \<open>execute\<close> and
  \<open>foreach\<close> with callbacks that keep sessions well-formed (the callbacks of
  \<open>main.rs\<close> only send packets), \<open>try_read\<close> with any environment, and
  \<open>set_current\<close>. Callback results are taken of type \<open>unit\<close>: they do not affect the
  registry. \<open>reg_step\<close> adds \<open>insert\<close> of a fresh session and \<open>remove\<close>.
\<close>

definition keeps_ok :: "(Synac \<Rightarrow> (Synac \<times> unit) option) \<Rightarrow> bool" where
  "keeps_ok fs \<longleftrightarrow> (\<forall>s s' u. synac_ok s \<longrightarrow> fs s = Some (s', u) \<longrightarrow> synac_ok s')"

inductive inplace_step :: "Connections \<Rightarrow> Connections \<Rightarrow> bool" where
  execute: "keeps_ok fs \<Longrightarrow> execute a fs fe cs = Some (cs', out) \<Longrightarrow> inplace_step cs cs'"
| foreach: "keeps_ok (\<lambda>s. Some (f s)) \<Longrightarrow> foreach order f cs = Some (cs', outs) \<Longrightarrow> inplace_step cs cs'"
| poll: "try_read locked now mord rd (cb :: Synac \<Rightarrow> packet \<Rightarrow> usize option \<Rightarrow> unit) order cs =
           Some (cs', outs, r) \<Longrightarrow> inplace_step cs cs'"
| select: "inplace_step cs (set_current a cs)"

inductive reg_step :: "Connections \<Rightarrow> Connections \<Rightarrow> bool" where
  inplace: "inplace_step cs cs' \<Longrightarrow> reg_step cs cs'"
| insert: "synac_ok s \<Longrightarrow> reg_step cs (Connections_insert a s cs)"
| remove: "reg_step cs (Connections_remove a cs)"

subsection \<open>Example values\<close>

text \<open>
  A registry with one live session, for the witnesses: the server \<open>127.0.0.1:8439\<close>,
  logged in as user 1.
\<close>

definition ex_addr :: socket_addr where
  "ex_addr = (V4 127 0 0 1, 8439)"

definition ex_synac :: Synac where
  "ex_synac = Synac_new ex_addr \<lparr>sess_addr = ex_addr, sess_hash = ''h'', nonblocking = True\<rparr> 1"

definition ex_registry :: Connections where
  "ex_registry = \<lparr>current_server = Some ex_addr, nick = ''me'', servers = [ex_addr \<mapsto> Connected (Inr ex_synac)]\<rparr>"

subsection \<open>Lifecycle, invariant and loop lemmas\<close>

lemma conn_result_Connected: "conn_result (Connected r) = Some r"
  by (simp add: conn_result_def)

lemma Connection_join_Some_iff:
  "Connection_join c = Some (c', r) \<longleftrightarrow> conn_result c = Some r \<and> c' = Connected r"
  by (cases c) (auto simp: Connection_join_def conn_result_def)

lemma Connection_join_None_iff: "Connection_join c = None \<longleftrightarrow> conn_result c = None"
  by (cases c) (auto simp: Connection_join_def conn_result_def)

lemma conn_step_result: "conn_result c = Some r \<Longrightarrow> conn_step\<^sup>*\<^sup>* c (Connected r)"
  by (cases c) (auto simp: conn_result_def intro: conn_step.resolve)

lemma conn_ok_Connected [simp]:
  "conn_ok (Connected (Inr s)) = synac_ok s" "conn_ok (Connected (Inl e))"
  by (simp_all add: conn_ok_def conn_result_def)

lemma conn_ok_result:
  "conn_ok c \<Longrightarrow> \<exists>r. conn_result c = Some r \<and> conn_ok (Connected r)"
  by (cases "conn_result c") (auto simp: conn_ok_def conn_result_def split: sum.splits)

lemma conn_step_result_update:
  "conn_result c = Some (Inr s) \<Longrightarrow> conn_step\<^sup>*\<^sup>* c (Connected (Inr s'))"
  using conn_step_result [of c "Inr s"] conn_step.update [of s s'] by simp

lemma evolves_refl [intro, simp]: "evolves m m"
  by (auto simp: evolves_def)

lemma evolves_trans: "evolves m1 m2 \<Longrightarrow> evolves m2 m3 \<Longrightarrow> evolves m1 m3"
  unfolding evolves_def by (metis rtranclp_trans)

lemma evolvesD: "evolves m m' \<Longrightarrow> m a = Some c \<Longrightarrow> \<exists>c'. m' a = Some c' \<and> conn_step\<^sup>*\<^sup>* c c'"
  unfolding evolves_def by blast

lemma evolves_upd: "m a = Some c \<Longrightarrow> conn_step\<^sup>*\<^sup>* c c' \<Longrightarrow> evolves m (m(a \<mapsto> c'))"
  by (auto simp: evolves_def)

lemma map_ok_upd: "map_ok m \<Longrightarrow> conn_ok c \<Longrightarrow> map_ok (m(a \<mapsto> c))"
  by (simp add: map_ok_def)

lemma map_okD: "map_ok m \<Longrightarrow> m a = Some c \<Longrightarrow> conn_ok c"
  unfolding map_ok_def by blast

lemma Connection_join_result: "conn_result c = Some r \<Longrightarrow> Connection_join c = Some (Connected r, r)"
  by (simp add: Connection_join_Some_iff)

lemma evolves_continue:
  assumes "\<And>m outs. map_ok m \<Longrightarrow> \<exists>m' x. L m outs = Some (m', x) \<and> map_ok m' \<and> evolves m m'"
    "map_ok m1" "evolves m m1"
  shows "\<exists>m' x. L m1 outs1 = Some (m', x) \<and> map_ok m' \<and> evolves m m'"
  using assms evolves_trans by meson

lemmas map_step_intros = evolves_upd map_ok_upd conn_step_result conn_step_result_update

lemma dispatch_ok:
  assumes "synac_ok s"
  shows "\<exists>s' ch. dispatch now ord p s = Some (s', ch) \<and> synac_ok s'"
proof -
  have mi: "messages_inv (synac_messages s)" and ti: "typing_inv (synac_typing s)"
    using assms by (simp_all add: synac_ok_def)
  show ?thesis
  proof (cases p)
    case (MessageReceive m b)
    then show ?thesis
      using messages_add_Some_iff [OF mi, of m] messages_inv_upsert [OF mi, of m] ti
      by (simp add: dispatch_def synac_ok_def)
  next
    case (MessageDeleteReceive mid)
    then show ?thesis
      using remove_from_cases [of mid "messages (synac_messages s)" ord] mi ti
      by (auto simp: dispatch_def synac_ok_def messages_remove_def messages_inv_def timeline_ok_remove)
  next
    case (TypingReceive author channel)
    then show ?thesis using mi ti typing_insert_inv
      by (simp add: dispatch_def synac_ok_def)
  qed (use mi ti in \<open>simp_all add: dispatch_def synac_ok_def\<close>)
qed

lemma poll_loop_ok:
  assumes "map_ok m"
  shows "\<exists>m' x. poll_loop now mord rd cb order m outs = Some (m', x) \<and> map_ok m' \<and> evolves m m'"
  using assms
proof (induction order arbitrary: m outs)
  case Nil
  then show ?case by simp
next
  case (Cons b order)
  show ?case
  proof (cases "m b")
    case None
    with Cons show ?thesis by simp
  next
    case (Some c)
    obtain r where cr: "conn_result c = Some r" and ok: "conn_ok (Connected r)"
      using conn_ok_result map_okD [OF Cons.prems Some] by blast
    have m1: "map_ok (m(b \<mapsto> Connected r))" "evolves m (m(b \<mapsto> Connected r))"
      using Cons.prems ok Some cr by (simp_all add: map_step_intros)
    note join = Some Connection_join_result [OF cr]
    show ?thesis
    proof (cases r)
      case (Inl e)
      with join evolves_continue [where L = "poll_loop now mord rd cb order", OF Cons.IH m1] show ?thesis by simp
    next
      case (Inr s)
      show ?thesis
      proof (cases "rd b")
        case (Inl e)
        with m1 join \<open>r = Inr s\<close> show ?thesis by simp
      next
        case (Inr x)
        show ?thesis
        proof (cases x)
          case None
          with join \<open>r = Inr s\<close> Inr evolves_continue [where L = "poll_loop now mord rd cb order", OF Cons.IH m1] show ?thesis by simp
        next
          case (Some p)
          obtain s' ch where d: "dispatch now (mord b) p s = Some (s', ch)" and ok': "synac_ok s'"
            using dispatch_ok ok \<open>r = Inr s\<close> by fastforce
          have "map_ok (m(b \<mapsto> Connected (Inr s')))" "evolves m (m(b \<mapsto> Connected (Inr s')))"
            using Cons.prems ok' \<open>m b = Some c\<close> cr \<open>r = Inr s\<close> by (simp_all add: map_step_intros)
          with join \<open>r = Inr s\<close> Inr Some d evolves_continue [where L = "poll_loop now mord rd cb order", OF Cons.IH] show ?thesis by simp
        qed
      qed
    qed
  qed
qed

lemma foreach_loop_ok:
  assumes "keeps_ok (\<lambda>s. Some (f s))" "map_ok m"
  shows "\<exists>m' x. foreach_loop f order m outs = Some (m', x) \<and> map_ok m' \<and> evolves m m'"
  using assms(2)
proof (induction order arbitrary: m outs)
  case Nil
  then show ?case by simp
next
  case (Cons b order)
  show ?case
  proof (cases "m b")
    case None
    with Cons show ?thesis by simp
  next
    case (Some c)
    obtain r where cr: "conn_result c = Some r" and ok: "conn_ok (Connected r)"
      using conn_ok_result map_okD [OF Cons.prems Some] by blast
    note join = Some Connection_join_result [OF cr]
    show ?thesis
    proof (cases r)
      case (Inl e)
      have "map_ok (m(b \<mapsto> Connected r))" "evolves m (m(b \<mapsto> Connected r))"
        using Cons.prems ok Some cr by (simp_all add: map_step_intros)
      with join Inl evolves_continue [where L = "foreach_loop f order", OF Cons.IH] show ?thesis by simp
    next
      case (Inr s)
      obtain s' u where fs: "f s = (s', u)" by (cases "f s") blast
      have "synac_ok s'" using assms(1) ok fs \<open>r = Inr s\<close> by (simp add: keeps_ok_def)
      then have "map_ok (m(b \<mapsto> Connected (Inr s')))" "evolves m (m(b \<mapsto> Connected (Inr s')))"
        using Cons.prems Some cr \<open>r = Inr s\<close> by (simp_all add: map_step_intros)
      with join Inr fs evolves_continue [where L = "foreach_loop f order", OF Cons.IH] show ?thesis by simp
    qed
  qed
qed

lemma execute_ok:
  assumes "keeps_ok fs" "registry_inv cs" "execute a fs fe cs = Some (cs', out)"
  shows "registry_inv cs' \<and> evolves (servers cs) (servers cs')"
proof (cases "servers cs a")
  case None
  with assms(2,3) show ?thesis by (simp add: execute_def)
next
  case (Some c)
  obtain r where cr: "conn_result c = Some r" and ok: "conn_ok (Connected r)"
    using conn_ok_result map_okD assms(2) Some by (metis registry_inv_def)
  show ?thesis
  proof (cases r)
    case (Inl e)
    with assms(2,3) Some cr ok show ?thesis
      by (auto simp: execute_def registry_inv_def Connection_join_result map_step_intros)
  next
    case (Inr s)
    then obtain s' where "fs s = Some (s', the out)" "synac_ok s'"
      and "cs' = cs\<lparr>servers := (servers cs)(a \<mapsto> Connected (Inr s'))\<rparr>"
      using assms Some cr ok by (auto simp: execute_def Connection_join_result keeps_ok_def)
    with assms(2) Some cr Inr show ?thesis
      by (simp add: registry_inv_def map_step_intros)
  qed
qed

lemma inplace_step_ok:
  assumes "inplace_step cs cs'" "registry_inv cs"
  shows "registry_inv cs' \<and> evolves (servers cs) (servers cs')"
  using assms
proof (induction rule: inplace_step.induct)
  case (execute fs a fe cs cs' out)
  then show ?case using execute_ok by blast
next
  case (foreach f order cs cs' outs)
  then show ?case
    using foreach_loop_ok [of f "servers cs" order "[]"]
    by (auto simp: foreach_def registry_inv_def)
next
  case (poll locked now mord rd cb order cs cs' outs r)
  then show ?case
    using poll_loop_ok [of "servers cs" now mord rd cb order "[]"]
    by (auto simp: try_read_def registry_inv_def split: if_splits)
next
  case (select cs a)
  then show ?case by (simp add: set_current_def registry_inv_def)
qed

lemma conn_step_Connected:
  assumes "conn_step\<^sup>*\<^sup>* (Connected r) c"
  shows "\<exists>r'. c = Connected r' \<and> isl r' = isl r"
  using assms
proof (induction rule: rtranclp_induct)
  case base
  then show ?case by simp
next
  case (step c c')
  then show ?case by (auto elim: conn_step.cases)
qed

lemma synac_ok_new: "synac_ok (Synac_new a sess u)"
  by (simp add: synac_ok_def Synac_new_def messages_inv_new typing_inv_new)

lemma conn_ok_spawned: "conn_ok (Connecting (fst (connect tr nk a h tok None)))"
proof -
  obtain r where r: "fst (connect tr nk a h tok None) = Some r"
    using connect_password_None by blast
  show ?thesis
  proof (cases r)
    case (Inr s)
    with r connect_Ok_session [of tr nk a h tok None s] show ?thesis
      by (simp add: conn_ok_def conn_result_def) (metis synac_ok_new)
  qed (simp add: r conn_ok_def conn_result_def)
qed

lemma spawn_rows_ok: "map_ok m \<Longrightarrow> map_ok (spawn_rows resolve net nk rows m)"
  by (induction resolve net nk rows m rule: spawn_rows.induct)
     (simp_all add: map_ok_upd conn_ok_spawned split: option.split)

lemma map_ok_empty: "map_ok Map.empty"
  by (simp add: map_ok_def)

lemma Connections_new_ok: "registry_inv (Connections_new resolve net rows nk)"
  by (simp add: Connections_new_def registry_inv_def spawn_rows_ok map_ok_empty)

lemma reg_step_ok: "reg_step cs cs' \<Longrightarrow> registry_inv cs \<Longrightarrow> registry_inv cs'"
  by (induction rule: reg_step.induct)
     (auto simp: Connections_insert_def Connections_remove_def registry_inv_def map_ok_def
           dest: inplace_step_ok)

lemma poll_loop_frame:
  assumes "poll_loop now mord rd cb order m outs = Some (m', outs', r)"
  shows "(\<exists>zs. outs' = outs @ zs) \<and> (\<forall>a. a \<notin> set order \<longrightarrow> m' a = m a) \<and>
    ((\<forall>b\<in>set order. \<forall>e. rd b \<noteq> Inl e) \<longrightarrow> r = Inr ())"
  using assms
proof (induction now mord rd cb order m outs arbitrary: m' outs' r rule: poll_loop.induct)
  case (1 now mord rd cb m outs)
  then show ?case by simp
next
  case (2 now mord rd cb a as m outs)
  then show ?case
    by (fastforce split: option.splits sum.splits prod.splits)
qed

lemma poll_loop_other:
  "poll_loop now mord rd cb order m outs = Some (m', outs', r) \<Longrightarrow> a \<notin> set order \<Longrightarrow> m' a = m a"
  using poll_loop_frame by blast

lemma poll_loop_append:
  "poll_loop now mord rd cb (xs @ ys) m outs =
     (case poll_loop now mord rd cb xs m outs of
        None \<Rightarrow> None
      | Some (m', outs', Inl e) \<Rightarrow> Some (m', outs', Inl e)
      | Some (m', outs', Inr u) \<Rightarrow> poll_loop now mord rd cb ys m' outs')"
  by (induction xs arbitrary: m outs) (auto split: option.split sum.split prod.split)

lemma poll_loop_Cons_Ok:
  assumes "poll_loop now mord rd cb (b # as) m outs = Some (m', outs', Inr ())" "m b = Some c"
  shows "\<exists>m1 outs1. poll_loop now mord rd cb as m1 outs1 = Some (m', outs', Inr ()) \<and>
    (\<exists>r. m1 b = Some (Connected r)) \<and> (\<forall>x. x \<noteq> b \<longrightarrow> m1 x = m x)"
  using assms by (auto split: option.splits sum.splits prod.splits simp: Connection_join_Some_iff)

lemma poll_loop_resolves:
  assumes "poll_loop now mord rd cb order m outs = Some (m', outs', Inr ())" "m' a = Some c"
    "a \<in> set order \<or> (\<exists>r. m a = Some (Connected r))"
  shows "\<exists>r. c = Connected r"
  using assms
proof (induction order arbitrary: m outs)
  case Nil
  then show ?case by auto
next
  case (Cons b as)
  show ?case
  proof (cases "m b")
    case None
    then have "poll_loop now mord rd cb as m outs = Some (m', outs', Inr ())" using Cons.prems(1) by simp
    moreover have "a \<in> set as \<or> (\<exists>r. m a = Some (Connected r))"
      using Cons.prems(2,3) poll_loop_other [OF calculation, of a] None by (cases "a = b") auto
    ultimately show ?thesis using Cons.IH Cons.prems(2) by blast
  next
    case (Some c0)
    then obtain m1 outs1 where rec: "poll_loop now mord rd cb as m1 outs1 = Some (m', outs', Inr ())"
      and mb: "\<exists>r. m1 b = Some (Connected r)" and other: "\<forall>x. x \<noteq> b \<longrightarrow> m1 x = m x"
      using poll_loop_Cons_Ok [OF Cons.prems(1)] by blast
    have "a \<in> set as \<or> (\<exists>r. m1 a = Some (Connected r))"
    proof (cases "a = b")
      case False
      then have "m1 a = m a" using other by blast
      then show ?thesis using Cons.prems(3) False by auto
    qed (use mb in simp)
    then show ?thesis using Cons.IH [OF rec] Cons.prems(2) by blast
  qed
qed

lemma synac_of_ok:
  "map_ok m \<Longrightarrow> m a = Some c \<Longrightarrow> conn_result c = Some (Inr s) \<Longrightarrow> synac_ok s"
  using map_okD [of m a c] by (simp add: conn_ok_def)

lemma spawn_rows_entry:
  "spawn_rows resolve net nk rows m a =
     (case filter (\<lambda>r. parse_addr resolve (fst r) = Some a) rows of
        [] \<Rightarrow> m a
      | rs \<Rightarrow> Some (Connecting (fst (connect (net a) nk a (fst (snd (last rs))) (snd (snd (last rs))) None))))"
proof (induction rows arbitrary: m)
  case Nil
  then show ?case by simp
next
  case (Cons row rows)
  obtain ip h t where row: "row = (ip, h, t)" by (cases row)
  show ?case
  proof (cases "parse_addr resolve ip")
    case None
    then show ?thesis using Cons.IH row by simp
  next
    case (Some b)
    let ?c = "Connecting (fst (connect (net b) nk b h t None))"
    have eq: "spawn_rows resolve net nk (row # rows) m a = spawn_rows resolve net nk rows (m(b \<mapsto> ?c)) a"
      using Some row by simp
    show ?thesis unfolding eq Cons.IH [of "m(b \<mapsto> ?c)"] using row Some
      by (cases "a = b") (auto split: list.split)
  qed
qed

lemma live_session_result:
  "m b = Some c \<Longrightarrow> conn_result c = Some r \<Longrightarrow> live_session m b = (case r of Inl _ \<Rightarrow> None | Inr s \<Rightarrow> Some s)"
  by (simp add: live_session_def split: sum.split)

lemma foreach_loop_live:
  assumes "distinct order" "\<forall>a c. m a = Some c \<longrightarrow> conn_result c \<noteq> None"
  shows "\<exists>m'. foreach_loop f order m outs =
      Some (m', outs @ map (\<lambda>s. snd (f s)) (List.map_filter (live_session m) order)) \<and>
    (\<forall>a s. a \<in> set order \<longrightarrow> live_session m a = Some s \<longrightarrow> m' a = Some (Connected (Inr (fst (f s))))) \<and>
    (\<forall>a. a \<notin> set order \<longrightarrow> m' a = m a)"
  using assms
proof (induction order arbitrary: m outs)
  case Nil
  then show ?case by (simp add: List.map_filter_simps)
next
  case (Cons b order)
  have bo: "b \<notin> set order" "distinct order" using Cons.prems(1) by auto
  have upd: "\<forall>a c. (m(b \<mapsto> Connected r)) a = Some c \<longrightarrow> conn_result c \<noteq> None" for r
    using Cons.prems(2) by (simp add: conn_result_def)
  have same: "live_session (m(b \<mapsto> c')) a = live_session m a" if "a \<in> set order" for a c'
    using that bo(1) by (auto simp: live_session_def)
  then have mf: "List.map_filter (live_session (m(b \<mapsto> c'))) order = List.map_filter (live_session m) order" for c'
    by (rule map_filter_cong)
  have step: "\<exists>m'. foreach_loop f (b # order) m outs =
      Some (m', outs @ map (\<lambda>s. snd (f s)) (List.map_filter (live_session m) (b # order))) \<and>
    (\<forall>a s. a \<in> set (b # order) \<longrightarrow> live_session m a = Some s \<longrightarrow> m' a = Some (Connected (Inr (fst (f s))))) \<and>
    (\<forall>a. a \<notin> set (b # order) \<longrightarrow> m' a = m a)"
    if rec: "foreach_loop f (b # order) m outs = foreach_loop f order (m(b \<mapsto> Connected r)) outs'"
      and lb: "live_session m b = map_option fst x"
      and out: "outs' = outs @ (case x of None \<Rightarrow> [] | Some (s, u) \<Rightarrow> [u])"
      and rx: "r = (case x of None \<Rightarrow> r | Some (s, u) \<Rightarrow> Inr (fst (f s)))"
      and fx: "\<forall>s u. x = Some (s, u) \<longrightarrow> u = snd (f s)"
    for r outs' x
  proof -
    obtain m' where l: "foreach_loop f order (m(b \<mapsto> Connected r)) outs' =
        Some (m', outs' @ map (\<lambda>s. snd (f s)) (List.map_filter (live_session (m(b \<mapsto> Connected r))) order))"
      and p1: "\<forall>a s. a \<in> set order \<longrightarrow> live_session (m(b \<mapsto> Connected r)) a = Some s \<longrightarrow>
                m' a = Some (Connected (Inr (fst (f s))))"
      and p2: "\<forall>a. a \<notin> set order \<longrightarrow> m' a = (m(b \<mapsto> Connected r)) a"
      using Cons.IH [OF bo(2) upd, of r outs'] by blast
    show ?thesis
    proof (intro exI conjI allI impI)
      show "foreach_loop f (b # order) m outs =
        Some (m', outs @ map (\<lambda>s. snd (f s)) (List.map_filter (live_session m) (b # order)))"
        using rec l out lb fx mf by (cases x) (auto simp: List.map_filter_simps)
    next
      fix a s assume a_in: "a \<in> set (b # order)" and ls: "live_session m a = Some s"
      show "m' a = Some (Connected (Inr (fst (f s))))"
      proof (cases "a = b")
        case True
        then obtain u where "x = Some (s, u)" using lb ls by (cases x) auto
        then have "r = Inr (fst (f s))" using rx by simp
        moreover have "m' b = (m(b \<mapsto> Connected r)) b" using p2 bo(1) by blast
        ultimately show ?thesis using True by simp
      next
        case False
        then have "a \<in> set order" using a_in by simp
        moreover have "live_session (m(b \<mapsto> Connected r)) a = Some s" using same [OF calculation] ls by simp
        ultimately show ?thesis using p1 by blast
      qed
    next
      fix a assume "a \<notin> set (b # order)"
      then have nb: "a \<notin> set order" "a \<noteq> b" by auto
      then have "m' a = (m(b \<mapsto> Connected r)) a" using p2 by blast
      then show "m' a = m a" using nb(2) by simp
    qed
  qed
  show ?case
  proof (cases "m b")
    case None
    then have "live_session m b = None" by (simp add: live_session_def)
    obtain m' where l: "foreach_loop f order m outs =
        Some (m', outs @ map (\<lambda>s. snd (f s)) (List.map_filter (live_session m) order))"
      and p1: "\<forall>a s. a \<in> set order \<longrightarrow> live_session m a = Some s \<longrightarrow> m' a = Some (Connected (Inr (fst (f s))))"
      and p2: "\<forall>a. a \<notin> set order \<longrightarrow> m' a = m a"
      using Cons.IH [OF bo(2) Cons.prems(2), of outs] by blast
    show ?thesis
    proof (intro exI conjI allI impI)
      show "foreach_loop f (b # order) m outs =
        Some (m', outs @ map (\<lambda>s. snd (f s)) (List.map_filter (live_session m) (b # order)))"
        using l None \<open>live_session m b = None\<close> by (simp add: List.map_filter_simps)
    next
      fix a s assume "a \<in> set (b # order)" "live_session m a = Some s"
      then show "m' a = Some (Connected (Inr (fst (f s))))"
        using p1 \<open>live_session m b = None\<close> by (cases "a = b") (auto simp del: split_paired_All)
    next
      fix a assume "a \<notin> set (b # order)"
      then show "m' a = m a" using p2 by (simp del: split_paired_All)
    qed
  next
    case (Some c)
    obtain r where cr: "conn_result c = Some r"
      using Cons.prems(2) Some by blast
    note join = Some Connection_join_result [OF cr]
    show ?thesis
    proof (cases r)
      case (Inl e)
      with join live_session_result [of m b c r, OF Some cr] show ?thesis by (intro step [of r outs None]) auto
    next
      case (Inr s)
      with join live_session_result [of m b c r, OF Some cr] show ?thesis
        by (intro step [of "Inr (fst (f s))" "outs @ [snd (f s)]" "Some (s, snd (f s))"])
           (auto split: prod.split)
    qed
  qed
qed

lemma registry_inv_no_panic:
  "registry_inv cs \<Longrightarrow> \<forall>a c. servers cs a = Some c \<longrightarrow> conn_result c \<noteq> None"
proof (intro allI impI)
  fix a c assume "registry_inv cs" "servers cs a = Some c"
  then have "conn_ok c" using map_okD by (auto simp: registry_inv_def)
  then show "conn_result c \<noteq> None" using conn_ok_result by fastforce
qed

lemma poll_loop_outs:
  "poll_loop now mord rd cb order m outs = Some (m', outs', r) \<Longrightarrow>
     \<forall>x\<in>set outs'. x \<in> set outs \<or> (\<exists>s p ch. x = cb s p ch)"
  by (induction now mord rd cb order m outs arbitrary: m' outs' r rule: poll_loop.induct)
     (fastforce split: option.splits sum.splits prod.splits)+

lemma poll_loop_quiet:
  assumes "\<forall>b. rd b = Inr None" "poll_loop now mord rd cb order m outs = Some (m', outs', r)"
    "m a = Some (Connected r0)"
  shows "outs' = outs \<and> r = Inr () \<and> m' a = Some (Connected r0)"
  using assms(2,3)
proof (induction order arbitrary: m outs)
  case Nil
  then show ?case by simp
next
  case (Cons b order)
  show ?case
  proof (cases "m b")
    case None
    with Cons show ?thesis by simp
  next
    case (Some c)
    with Cons.prems(1) obtain r1 where cr: "conn_result c = Some r1"
      by (cases "conn_result c") (simp_all add: Connection_join_None_iff [THEN iffD2])
    then have "poll_loop now mord rd cb order (m(b \<mapsto> Connected r1)) outs = Some (m', outs', r)"
      using Cons.prems(1) Some spec [OF assms(1), of b] by (cases r1) (simp_all add: Connection_join_result)
    moreover have "(m(b \<mapsto> Connected r1)) a = Some (Connected r0)"
      using Cons.prems(2) Some cr by (auto simp: conn_result_def)
    ultimately show ?thesis by (rule Cons.IH)
  qed
qed

lemma poll_loop_length:
  "poll_loop now mord rd cb order m outs = Some (m', outs', r) \<Longrightarrow> length outs' \<le> length outs + length order"
  by (induction now mord rd cb order m outs arbitrary: m' outs' r rule: poll_loop.induct)
     (fastforce split: option.splits sum.splits prod.splits)+

subsection \<open>Properties of the registry\<close>

text \<open>
  C15: Every registry reachable from \<open>Connections::new\<close> by the registry's operations is
  well-formed: no entry is a dial whose thread panicked, and every session's message store
  and typing tracker are well-formed. Background dials never panic because they run with
  the password provider \<open>|| None\<close>.
\<close>

theorem reachable_registry_inv:
  assumes "reg_step\<^sup>*\<^sup>* (Connections_new resolve net rows nk) cs"
  shows "registry_inv cs"
  using assms by (induction rule: rtranclp_induct) (auto simp: Connections_new_ok reg_step_ok)

text \<open>
  C16: On a well-formed registry \<open>try_read\<close> never panics, whatever the packets read,
  and leaves the registry well-formed.
\<close>

theorem try_read_total:
  assumes "registry_inv cs"
  shows "\<exists>cs' outs r. try_read locked now mord rd cb order cs = Some (cs', outs, r) \<and> registry_inv cs'"
  using assms poll_loop_ok [of "servers cs" now mord rd cb order "[]"]
  by (auto simp: try_read_def registry_inv_def)

text \<open>
  C17: Once resolved, a connection stays resolved with the same outcome under every in-place
  operation (\<open>execute\<close>, \<open>foreach\<close>, \<open>try_read\<close>, \<open>set_current\<close>):
  it never reverts to pending, and a failed dial never becomes a session or the reverse.
\<close>

theorem resolved_stays_resolved:
  assumes "registry_inv cs" "inplace_step\<^sup>*\<^sup>* cs cs'" "servers cs a = Some (Connected r)"
  shows "\<exists>r'. servers cs' a = Some (Connected r') \<and> isl r' = isl r"
proof -
  have "registry_inv cs' \<and> evolves (servers cs) (servers cs')"
    using assms(2,1)
  proof (induction rule: rtranclp_induct)
    case base
    then show ?case by simp
  next
    case (step y z)
    then show ?case using inplace_step_ok evolves_trans by blast
  qed
  then obtain c' where "servers cs' a = Some c'" "conn_step\<^sup>*\<^sup>* (Connected r) c'"
    using assms(3) evolvesD by blast
  then show ?thesis using conn_step_Connected by blast
qed

text \<open>
  C18: When no read fails, a poll reads the packet waiting on every live session, applies it
  by \<open>dispatch\<close> (mirrored state, message store, typing tracker), stores the updated
  session, and calls the callback with the session, the packet and the affected channel.
\<close>

theorem try_read_dispatch:
  assumes "registry_inv cs" "distinct order" "a \<in> set order" "servers cs a = Some c"
    "conn_result c = Some (Inr s)" "rd a = Inr (Some p)" "\<forall>b\<in>set order. \<forall>e. rd b \<noteq> Inl e"
  shows "\<exists>cs' outs s' ch. try_read False now mord rd cb order cs = Some (cs', outs, Inr ()) \<and>
    dispatch now (mord a) p s = Some (s', ch) \<and> servers cs' a = Some (Connected (Inr s')) \<and>
    cb s' p ch \<in> set outs"
proof -
  obtain xs ys where ord: "order = xs @ a # ys" using split_list assms(3) by metis
  have ax: "a \<notin> set xs" and ay: "a \<notin> set ys" using assms(2) ord by auto
  let ?m = "servers cs"
  have ok: "map_ok ?m" using assms(1) by (simp add: registry_inv_def)
  obtain m1 x1 where l1: "poll_loop now mord rd cb xs ?m [] = Some (m1, x1)" and ok1: "map_ok m1"
    using poll_loop_ok [OF ok, of now mord rd cb xs "[]"] by blast
  obtain outs1 r1 where x1: "x1 = (outs1, r1)" by (cases x1)
  have r1: "r1 = Inr ()" using poll_loop_frame [OF l1 [unfolded x1]] assms(7) ord by auto
  have m1a: "m1 a = Some c" using poll_loop_other [OF l1 [unfolded x1] ax] assms(4) by simp
  obtain s' ch where d: "dispatch now (mord a) p s = Some (s', ch)" and ok': "synac_ok s'"
    using dispatch_ok synac_of_ok [OF ok assms(4,5)] by blast
  let ?m2 = "m1(a \<mapsto> Connected (Inr s'))"
  have ok2: "map_ok ?m2" using ok1 ok' by (simp add: map_ok_upd)
  obtain m3 x3 where l3: "poll_loop now mord rd cb ys ?m2 (outs1 @ [cb s' p ch]) = Some (m3, x3)"
    using poll_loop_ok [OF ok2] by blast
  obtain outs3 r3 where x3: "x3 = (outs3, r3)" by (cases x3)
  note fr3 = poll_loop_frame [OF l3 [unfolded x3]]
  have "r3 = Inr ()" using fr3 assms(7) ord by auto
  moreover have "m3 a = Some (Connected (Inr s'))" using poll_loop_other [OF l3 [unfolded x3] ay] by simp
  moreover have "cb s' p ch \<in> set outs3" using fr3 by auto
  moreover have "poll_loop now mord rd cb order ?m [] = Some (m3, outs3, r3)"
    using l1 l3 x1 x3 r1 m1a d assms(5,6) ord
    by (simp add: poll_loop_append Connection_join_result)
  ultimately show ?thesis using d by (auto simp: try_read_def)
qed

text \<open>
  C19: A read error on a live session aborts the poll with that error: the sessions before it
  in iteration order have been processed, the failing session stays in the registry
  unchanged, and the sessions after it are neither joined nor read.
\<close>

theorem try_read_read_error:
  assumes "registry_inv cs" "order = xs @ a # ys" "a \<notin> set xs" "servers cs a = Some c"
    "conn_result c = Some (Inr s)" "rd a = Inl e" "\<forall>b\<in>set xs. \<forall>e'. rd b \<noteq> Inl e'"
  shows "\<exists>cs' outs. try_read False now mord rd cb order cs = Some (cs', outs, Inl e) \<and>
    servers cs' a = Some (Connected (Inr s)) \<and> (\<forall>b. b \<notin> set xs \<longrightarrow> b \<noteq> a \<longrightarrow> servers cs' b = servers cs b)"
proof -
  let ?m = "servers cs"
  have ok: "map_ok ?m" using assms(1) by (simp add: registry_inv_def)
  obtain m1 x1 where l1: "poll_loop now mord rd cb xs ?m [] = Some (m1, x1)"
    using poll_loop_ok [OF ok, of now mord rd cb xs "[]"] by blast
  obtain outs1 r1 where x1: "x1 = (outs1, r1)" by (cases x1)
  note fr1 = poll_loop_frame [OF l1 [unfolded x1]]
  have r1: "r1 = Inr ()" using fr1 assms(7) by auto
  have m1a: "m1 a = Some c" using poll_loop_other [OF l1 [unfolded x1] assms(3)] assms(4) by simp
  have loop: "poll_loop now mord rd cb order ?m [] = Some (m1(a \<mapsto> Connected (Inr s)), outs1, Inl e)"
    using l1 x1 r1 m1a assms(2,5,6) by (simp add: poll_loop_append Connection_join_result)
  have "\<forall>b. b \<notin> set xs \<longrightarrow> b \<noteq> a \<longrightarrow> (m1(a \<mapsto> Connected (Inr s))) b = ?m b"
    using fr1 by simp
  with loop show ?thesis by (simp add: try_read_def)
qed

text \<open>
  C20: A poll that completes joins every pending dial: afterwards no entry is
  \<open>Connecting\<close>. Joining waits for the dial's thread, so a poll issued while a dial is
  in flight blocks the UI thread until the dial ends, although the lock is taken with
  \<open>try_lock\<close>.
\<close>

theorem try_read_joins_pending:
  assumes "dom (servers cs) \<subseteq> set order"
    "try_read False now mord rd cb order cs = Some (cs', outs, Inr ())" "servers cs' a = Some c"
  shows "\<exists>r. c = Connected r"
proof -
  have loop: "poll_loop now mord rd cb order (servers cs) [] = Some (servers cs', outs, Inr ())"
    using assms(2) by (auto simp: try_read_def)
  have "a \<in> set order"
  proof (rule ccontr)
    assume "a \<notin> set order"
    then have "servers cs' a = servers cs a" by (rule poll_loop_other [OF loop])
    then show False using assms(1,3) \<open>a \<notin> set order\<close> by (metis domI subsetD)
  qed
  then show ?thesis using poll_loop_resolves [OF loop assms(3)] by blast
qed

text \<open>
  C21: When the lock is held elsewhere, or the registry is empty, a poll does nothing and
  returns \<open>Ok(())\<close> without calling the callback.
\<close>

theorem try_read_idle:
  assumes "locked \<or> servers cs = Map.empty"
  shows "try_read locked now mord rd cb order cs = Some (cs, [], Inr ())"
proof -
  have "poll_loop now mord rd cb order Map.empty [] = Some (Map.empty, [], Inr ())"
    by (induction order) simp_all
  then show ?thesis using assms by (auto simp: try_read_def)
qed

text \<open>
  C22: \<open>foreach\<close> over the addresses in iteration order (without repetition) calls the
  callback once for every resolved session, in that order, skipping pending-failed and failed
  dials and absent addresses, and stores each updated session in place.
\<close>

theorem foreach_live_sessions:
  assumes "registry_inv cs" "distinct order"
  shows "\<exists>cs'. foreach order f cs =
      Some (cs', map (\<lambda>s. snd (f s)) (List.map_filter (live_session (servers cs)) order)) \<and>
    (\<forall>a s. a \<in> set order \<longrightarrow> live_session (servers cs) a = Some s \<longrightarrow>
       servers cs' a = Some (Connected (Inr (fst (f s))))) \<and>
    (\<forall>a. a \<notin> set order \<longrightarrow> servers cs' a = servers cs a)"
proof -
  note registry_inv_no_panic [OF assms(1)]
  from foreach_loop_live [OF assms(2) this, of f "[]"] show ?thesis
    by (auto simp: foreach_def)
qed

text \<open>
  C23: \<open>Connections::new\<close> starts with no server selected and holds, for every address
  that some database row parses to, a pending dial with that row's hash and token and no
  password provider; when several rows parse to the same address, the last one wins.
\<close>

theorem Connections_new_entry:
  "servers (Connections_new resolve net rows nk) a =
     (case filter (\<lambda>r. parse_addr resolve (fst r) = Some a) rows of
        [] \<Rightarrow> None
      | rs \<Rightarrow> Some (Connecting (fst (connect (net a) nk a (fst (snd (last rs))) (snd (snd (last rs))) None))))
   \<and> current_server (Connections_new resolve net rows nk) = None"
  by (simp add: Connections_new_def spawn_rows_entry)

text \<open>
  C24: A typing notification from another user is recorded in the typing tracker (replacing
  that user's earlier entry) and reports its channel; the local user's own notification
  changes nothing and reports no channel. Neither touches the message store.
\<close>

theorem dispatch_typing_receive:
  "\<exists>s' ch'. dispatch now ord (TypingReceive author ch) s = Some (s', ch') \<and>
     state s' = state s \<and> synac_messages s' = synac_messages s \<and>
     (if author = user s then ch' = None \<and> synac_typing s' = synac_typing s
      else ch' = Some ch \<and>
        (\<forall>now'. typing_live now' (Some ch) (synac_typing s') =
           filter (\<lambda>u. u \<noteq> author) (typing_live now' (Some ch) (synac_typing s)) @
           (if now' - now < TYPING_TIMEOUT then [author] else [])))"
  by (simp add: dispatch_def typing_live_insert)

text \<open>
  C40: A poll reads at most one packet per address it visits: the callback is called at
  most as many times as there are addresses in the iteration order.
\<close>

theorem try_read_one_packet_each:
  assumes "try_read locked now mord rd cb order cs = Some (cs', outs, r)"
  shows "length outs \<le> length order"
  using assms poll_loop_length [of now mord rd cb order "servers cs" "[]"]
  by (auto simp: try_read_def split: if_splits)

subsection \<open>Witnesses\<close>

lemma ex_registry_inv: "registry_inv ex_registry"
  by (simp add: ex_registry_def registry_inv_def map_ok_def ex_synac_def synac_ok_new)

theorem reachable_registry_inv_witness:
  "registry_inv (set_current (Some ex_addr)
     (Connections_new (\<lambda>host p. Some [((V4 127 0 0 1), p)]) (\<lambda>_. \<lparr>tr_open = None, tr_send = (\<lambda>_. None),
        tr_reply = (\<lambda>_. Inr (LoginSuccess False 1 ''tk'')), tr_nonblock = None, tr_db_ok = True\<rparr>)
        [(''127.0.0.1'', ''h'', Some ''tk'')] ''me''))"
  by (rule reachable_registry_inv) (blast intro: reg_step.inplace inplace_step.select)

theorem try_read_total_witness:
  "\<exists>cs' outs r. try_read False 0 (\<lambda>_. []) (\<lambda>_. Inr (Some (TypingReceive 2 5))) (\<lambda>s p ch. ch) [ex_addr] ex_registry =
     Some (cs', outs, r) \<and> registry_inv cs'"
  by (rule try_read_total [OF ex_registry_inv])

theorem resolved_stays_resolved_witness:
  "\<exists>r'. servers (set_current None ex_registry) ex_addr = Some (Connected r') \<and> isl r' = isl (Inr ex_synac :: Error + Synac)"
  by (rule resolved_stays_resolved [OF ex_registry_inv])
     (auto simp: ex_registry_def intro: inplace_step.select)

theorem try_read_dispatch_witness:
  "\<exists>cs' outs s' ch. try_read False 0 (\<lambda>_. []) (\<lambda>_. Inr (Some (TypingReceive 2 5))) (\<lambda>s p ch. ch) [ex_addr] ex_registry =
     Some (cs', outs, Inr ()) \<and> dispatch 0 [] (TypingReceive 2 5) ex_synac = Some (s', ch) \<and>
     servers cs' ex_addr = Some (Connected (Inr s')) \<and> ch \<in> set outs"
  by (rule try_read_dispatch [OF ex_registry_inv, where c = "Connected (Inr ex_synac)"])
     (simp_all add: ex_registry_def conn_result_def)

theorem try_read_read_error_witness:
  "\<exists>cs' outs. try_read False 0 (\<lambda>_. []) (\<lambda>_. Inl (IoError BrokenPipe)) (\<lambda>s p ch. ch) [ex_addr] ex_registry =
     Some (cs', outs, Inl (IoError BrokenPipe)) \<and> servers cs' ex_addr = Some (Connected (Inr ex_synac))"
  using try_read_read_error [OF ex_registry_inv, where xs = "[]" and ys = "[]" and a = ex_addr
      and c = "Connected (Inr ex_synac)" and s = ex_synac and rd = "\<lambda>_. Inl (IoError BrokenPipe)"
      and e = "IoError BrokenPipe" and now = 0 and mord = "\<lambda>_. []" and cb = "\<lambda>s p ch. ch"]
  by (simp add: ex_registry_def conn_result_def) blast

theorem try_read_joins_pending_witness:
  "\<exists>cs' outs. try_read False 0 (\<lambda>_. []) (\<lambda>_. Inr None) (\<lambda>s p ch. ch) [ex_addr]
      (ex_registry\<lparr>servers := [ex_addr \<mapsto> Connecting (Some (Inr ex_synac))]\<rparr>) = Some (cs', outs, Inr ()) \<and>
    (\<exists>r. the (servers cs' ex_addr) = Connected r)"
proof -
  let ?cs = "ex_registry\<lparr>servers := [ex_addr \<mapsto> Connecting (Some (Inr ex_synac))]\<rparr>"
  have run: "try_read False 0 (\<lambda>_. []) (\<lambda>_. Inr None) (\<lambda>s p ch. ch) [ex_addr] ?cs =
     Some (?cs\<lparr>servers := [ex_addr \<mapsto> Connected (Inr ex_synac)]\<rparr>, [], Inr ())"
    by (simp add: try_read_def Connection_join_def)
  have "servers (?cs\<lparr>servers := [ex_addr \<mapsto> Connected (Inr ex_synac)]\<rparr>) ex_addr = Some (Connected (Inr ex_synac))"
    by simp
  from try_read_joins_pending [OF _ run this] have "\<exists>r. Connected (Inr ex_synac) = Connected r"
    by (simp add: ex_registry_def)
  with run show ?thesis by auto
qed

theorem try_read_idle_witness:
  "try_read True 0 (\<lambda>_. []) (\<lambda>_. Inr None) (\<lambda>s p ch. ch) [ex_addr] ex_registry = Some (ex_registry, [], Inr ())"
  by (rule try_read_idle) simp

theorem foreach_live_sessions_witness:
  "\<exists>cs'. foreach [ex_addr] (\<lambda>s. (s, user s)) ex_registry = Some (cs', [1]) \<and>
     servers cs' ex_addr = Some (Connected (Inr ex_synac))"
proof -
  have ls: "List.map_filter (live_session (servers ex_registry)) [ex_addr] = [ex_synac]"
    by (simp add: List.map_filter_simps live_session_def ex_registry_def conn_result_def)
  show ?thesis
    using foreach_live_sessions [OF ex_registry_inv, of "[ex_addr]" "\<lambda>s. (s, user s)"] ls
    by (auto simp: ex_synac_def Synac_new_def live_session_def ex_registry_def conn_result_def)
qed

theorem try_read_one_packet_each_witness:
  "length (fst (snd (the (try_read False 0 (\<lambda>_. []) (\<lambda>_. Inr (Some (TypingReceive 2 5))) (\<lambda>s p ch. ch)
      [ex_addr] ex_registry)))) \<le> 1"
proof -
  obtain cs' outs r where run: "try_read False 0 (\<lambda>_. []) (\<lambda>_. Inr (Some (TypingReceive 2 5))) (\<lambda>s p ch. ch)
      [ex_addr] ex_registry = Some (cs', outs, r)"
    by (simp add: try_read_def Connection_join_def dispatch_def ex_registry_def ex_synac_def Synac_new_def)
  from try_read_one_packet_each [OF run] run show ?thesis by simp
qed

end
