(* ===== verification/Client.thy ===== *)
theory Client
  imports Connections
begin

text \<open>
  The action handlers and the idle tick of \<open>src/src/main.rs\<close>. The application state
  \<open>App\<close> keeps what the handlers read and write besides widgets: the registry, the
  \<open>servers\<close> table of the database, the id of the message being edited, the text of the
  typing label and the time of the last typing notification. Each handler is a function from
  its inputs (entry texts, the clock, what the transport returns for each packet sent, which
  is \<open>send\<close>) to the new state and the list of its observable effects; \<open>None\<close> is a
  panic. Widget updates that do not feed back into the state are not modelled.
\<close>

subsection \<open>State and effects\<close>

text \<open>A row \<open>(ip, name, hash, token)\<close> of the \<open>servers\<close> table.\<close>

type_synonym db_row = "string \<times> string \<times> string \<times> string option"

record App =
  app_connections :: Connections
  db_servers :: "db_row list"
  message_edit_id :: "usize option"
  typing_label :: string
  typing_last :: nat

datatype ui_effect =
    Send socket_addr packet "Error option"
  | Alert Error
  | Reconnect socket_addr string "string option"
  | RenderServers
  | RenderChannels socket_addr
  | RenderMessages socket_addr
  | SetTypingLabel string
  | LogError Error

text \<open>
  Running a callback against the selected server: the pattern
  \<open>if let Some(addr) = *current_server.lock() { connections.execute(addr, ...) }\<close>
  shared by the handlers. The callback's \<open>Err\<close> arm does nothing in every handler.
\<close>

definition on_current :: "(socket_addr \<Rightarrow> Synac \<Rightarrow> (Synac \<times> ui_effect list) option) \<Rightarrow> App \<Rightarrow>
    (App \<times> ui_effect list) option" where
  "on_current fs app =
     (case current_server (app_connections app) of
        None \<Rightarrow> Some (app, [])
      | Some a \<Rightarrow>
          map_option (\<lambda>(cs', out). (app\<lparr>app_connections := cs'\<rparr>, case out of None \<Rightarrow> [] | Some es \<Rightarrow> es))
            (execute a (fs a) (\<lambda>_. []) (app_connections app)))"

text \<open>Sending a packet on a session: the attempt and its result.\<close>

definition send_on :: "(socket_addr \<Rightarrow> packet \<Rightarrow> Error option) \<Rightarrow> Synac \<Rightarrow> packet \<Rightarrow> ui_effect" where
  "send_on send s p = Send (addr s) p (send (addr s) p)"

subsection \<open>Handlers\<close>

text \<open>
  The nickname entry (\<open>user_stack_edit.connect_activate\<close>): an empty or unchanged name
  does nothing; otherwise a \<open>LoginUpdate\<close> with the new name is sent to every live
  session (a failure raises an alert) and the nickname is replaced.
\<close>

definition change_nick :: "socket_addr list \<Rightarrow> (socket_addr \<Rightarrow> packet \<Rightarrow> Error option) \<Rightarrow> string \<Rightarrow> App \<Rightarrow>
    (App \<times> ui_effect list) option" where
  "change_nick order send text app =
     (if text = [] \<or> text = nick (app_connections app) then Some (app, [])
      else
        (let p = LoginUpdate (Some text) None None False
         in map_option (\<lambda>(cs', outs). (app\<lparr>app_connections := cs'\<lparr>nick := text\<rparr>\<rparr>, concat outs))
              (foreach order (\<lambda>s. (s, send_on send s p # (case send (addr s) p of None \<Rightarrow> [] | Some e \<Rightarrow> [Alert e])))
                 (app_connections app))))"

text \<open>
  Scrolling to the top of the message list (\<open>connect_edge_reached\<close>): asks the server
  for the \<open>LIMIT_BULK\<close> messages before the first message held for the selected channel.
\<close>

definition load_more :: "(socket_addr \<Rightarrow> packet \<Rightarrow> Error option) \<Rightarrow> bool \<Rightarrow> App \<Rightarrow> (App \<times> ui_effect list) option" where
  "load_more send edge_top app =
     (if \<not> edge_top then Some (app, [])
      else on_current (\<lambda>a s.
        (case current_channel s of
           None \<Rightarrow> Some (s, [])
         | Some ch \<Rightarrow>
             Some (s, [send_on send s (MessageList None
                        (map_option msg_id (slice_get (messages_get ch (synac_messages s)) 0)) ch LIMIT_BULK)]))) app)"

text \<open>
  The edit entry (\<open>message_edit_input.connect_activate\<close>): sends a \<open>MessageUpdate\<close>
  for the message being edited; \<open>expect\<close> panics when no message is being edited.
\<close>

definition edit_message :: "(socket_addr \<Rightarrow> packet \<Rightarrow> Error option) \<Rightarrow> string \<Rightarrow> App \<Rightarrow> (App \<times> ui_effect list) option" where
  "edit_message send text app =
     (if text = [] then Some (app, [])
      else on_current (\<lambda>a s.
        (case message_edit_id app of
           None \<Rightarrow> None
         | Some mid \<Rightarrow> Some (s, [send_on send s (MessageUpdate mid text)]))) app)"

text \<open>
  Typing in the message entry (\<open>connect_property_text_notify\<close>): at most one
  \<open>Typing\<close> packet per \<open>TYPING_TIMEOUT / 2\<close> seconds; \<open>now\<close> is the clock in seconds.
\<close>

definition notify_typing :: "(socket_addr \<Rightarrow> packet \<Rightarrow> Error option) \<Rightarrow> nat \<Rightarrow> App \<Rightarrow> (App \<times> ui_effect list) option" where
  "notify_typing send now app =
     (if now - typing_last app < TYPING_TIMEOUT div 2 then Some (app, [])
      else on_current (\<lambda>a s.
        (case current_channel s of
           None \<Rightarrow> Some (s, [])
         | Some ch \<Rightarrow> Some (s, [send_on send s (Typing ch)]))) (app\<lparr>typing_last := now\<rparr>))"

text \<open>
  The reconnection rule of the send handler: after a failed send, an I/O error other than a
  broken pipe is ignored; any other error reconnects with the hash and token saved for the
  address (\<open>fmt\<close> is \<open>SocketAddr::to_string\<close>), when the database has a row for it.
\<close>

definition reconnect_row :: "(socket_addr \<Rightarrow> string) \<Rightarrow> db_row list \<Rightarrow> socket_addr \<Rightarrow> ui_effect list" where
  "reconnect_row fmt rows a =
     (case find (\<lambda>r. fst r = fmt a) rows of
        None \<Rightarrow> []
      | Some (ip, name, hash, token) \<Rightarrow> [Reconnect a hash token])"

definition reconnect_after :: "(socket_addr \<Rightarrow> string) \<Rightarrow> db_row list \<Rightarrow> socket_addr \<Rightarrow> Error \<Rightarrow> ui_effect list" where
  "reconnect_after fmt rows a e =
     (case e of
        IoError k \<Rightarrow> if k \<noteq> BrokenPipe then [] else reconnect_row fmt rows a
      | _ \<Rightarrow> reconnect_row fmt rows a)"

text \<open>
  The message entry (\<open>input.connect_activate\<close>): sends a \<open>MessageCreate\<close> to the
  selected channel of the selected server and applies the reconnection rule on failure.
\<close>

definition send_message :: "(socket_addr \<Rightarrow> string) \<Rightarrow> (socket_addr \<Rightarrow> packet \<Rightarrow> Error option) \<Rightarrow> string \<Rightarrow> App \<Rightarrow>
    (App \<times> ui_effect list) option" where
  "send_message fmt send text app =
     (if text = [] then Some (app, [])
      else on_current (\<lambda>a s.
        (case current_channel s of
           None \<Rightarrow> Some (s, [])
         | Some ch \<Rightarrow>
             (let p = MessageCreate ch text
              in Some (s, send_on send s p #
                   (case send (addr s) p of None \<Rightarrow> [] | Some e \<Rightarrow> reconnect_after fmt (db_servers app) a e))))) app)"

text \<open>
  The server form's Ok button (\<open>edit_server_ok.connect_clicked\<close>): an address that does
  not parse does nothing; otherwise the row is inserted and the server list re-rendered. The
  \<open>INSERT\<close> is unwrapped, and \<open>ip\<close> is the table's primary key: inserting an
  address that is already saved panics.
\<close>

definition add_server :: "(string \<Rightarrow> u16 \<Rightarrow> socket_addr list option) \<Rightarrow> (socket_addr \<Rightarrow> string) \<Rightarrow>
    string \<Rightarrow> string \<Rightarrow> string \<Rightarrow> App \<Rightarrow> (App \<times> ui_effect list) option" where
  "add_server resolve fmt name server hash app =
     (case parse_addr resolve server of
        None \<Rightarrow> Some (app, [])
      | Some a \<Rightarrow>
          (if list_ex (\<lambda>r. fst r = fmt a) (db_servers app) then None
           else Some (app\<lparr>db_servers := db_servers app @ [(fmt a, name, hash, None)]\<rparr>, [RenderServers])))"

text \<open>
  The channel form's Ok button (\<open>edit_channel_ok.connect_clicked\<close>): an empty name does
  nothing; otherwise a \<open>ChannelCreate\<close> with the default modes of the two mode boxes
  (\<open>get_mode(..).unwrap()\<close>, inputs here: \<open>None\<close> panics) is sent, and a failure raises
  an alert.
\<close>

definition create_channel :: "(socket_addr \<Rightarrow> packet \<Rightarrow> Error option) \<Rightarrow> string \<Rightarrow> nat option \<Rightarrow> nat option \<Rightarrow>
    App \<Rightarrow> (App \<times> ui_effect list) option" where
  "create_channel send name mode_bot mode_user app =
     on_current (\<lambda>a s.
       (if name = [] then Some (s, [])
        else (case (mode_bot, mode_user) of
                (Some mb, Some mu) \<Rightarrow>
                  (let p = ChannelCreate mb mu name
                   in Some (s, send_on send s p # (case send (addr s) p of None \<Rightarrow> [] | Some e \<Rightarrow> [Alert e])))
              | _ \<Rightarrow> None))) app"

subsection \<open>The idle tick\<close>

text \<open>What the poll callback of the idle tick records: packets of the selected server only.\<close>

definition tick_event :: "socket_addr option \<Rightarrow> Synac \<Rightarrow> packet \<Rightarrow> usize option \<Rightarrow> (socket_addr \<times> packet) option" where
  "tick_event cur s p ch = (if cur \<noteq> Some (addr s) then None else Some (addr s, p))"

definition channel_packet :: "packet \<Rightarrow> bool" where
  "channel_packet p = (case p of ChannelReceive _ _ \<Rightarrow> True | ChannelDeleteReceive _ \<Rightarrow> True | _ \<Rightarrow> False)"

definition message_packet :: "packet \<Rightarrow> bool" where
  "message_packet p = (case p of MessageReceive _ _ \<Rightarrow> True | MessageDeleteReceive _ \<Rightarrow> True | _ \<Rightarrow> False)"

text \<open>
  The re-rendering at the end of a tick: the channel list when a packet of the selected
  server changed channels, else its messages when one changed messages.
\<close>

definition tick_render :: "(socket_addr \<times> packet) list \<Rightarrow> ui_effect list" where
  "tick_render evs =
     (case evs of
        [] \<Rightarrow> []
      | _ \<Rightarrow> (let a = fst (last evs)
             in if list_ex (\<lambda>ev. channel_packet (snd ev)) evs then [RenderChannels a]
                else if list_ex (\<lambda>ev. message_packet (snd ev)) evs then [RenderMessages a]
                else []))"

text \<open>
  The closure of \<open>gtk::idle_add\<close>: poll every session; on a read error log it and end
  the tick; otherwise update the typing label from the selected session's tracker (only when
  someone is typing) and re-render the channel list, or else the messages, when a packet of
  the selected server asked for it.
\<close>

definition idle_tick :: "bool \<Rightarrow> nat \<Rightarrow> (socket_addr \<Rightarrow> usize list) \<Rightarrow> (socket_addr \<Rightarrow> Error + packet option) \<Rightarrow>
    socket_addr list \<Rightarrow> App \<Rightarrow> (App \<times> ui_effect list) option" where
  "idle_tick locked now mord rd order app =
     (let cur = current_server (app_connections app)
      in case try_read locked now mord rd (tick_event cur) order (app_connections app) of
           None \<Rightarrow> None
         | Some (cs1, outs, Inl e) \<Rightarrow> Some (app\<lparr>app_connections := cs1\<rparr>, [LogError e])
         | Some (cs1, outs, Inr _) \<Rightarrow>
             (let render = tick_render (List.map_filter id outs)
              in case (case cur of
                         None \<Rightarrow> Some (cs1, None)
                       | Some a \<Rightarrow> execute a (\<lambda>s. Some (s, typing_check now (current_channel s) (state s) (synac_typing s)))
                                    (\<lambda>_. None) cs1) of
                   None \<Rightarrow> None
                 | Some (cs2, lbl) \<Rightarrow>
                     (case lbl of
                        Some (Some t) \<Rightarrow> Some (app\<lparr>app_connections := cs2, typing_label := t\<rparr>, SetTypingLabel t # render)
                      | _ \<Rightarrow> Some (app\<lparr>app_connections := cs2\<rparr>, render))))"

subsection \<open>Example values\<close>

text \<open>
  For the witnesses: the registry of \<open>Connections\<close> with its session viewing channel 5,
  which holds one message, and the saved row of that server.
\<close>

definition ex_message :: message where
  "ex_message = \<lparr>msg_author = 2, msg_channel = 5, msg_id = 3, msg_text = ''hi'', msg_timestamp = 100,
     msg_timestamp_edit = None\<rparr>"

definition ex_session :: Synac where
  "ex_session = ex_synac\<lparr>current_channel := Some 5, synac_messages := \<lparr>messages = [5 \<mapsto> [ex_message]]\<rparr>\<rparr>"

definition ex_app :: App where
  "ex_app = \<lparr>app_connections = ex_registry\<lparr>servers := [ex_addr \<mapsto> Connected (Inr ex_session)]\<rparr>,
     db_servers = [(''127.0.0.1:8439'', ''local'', ''h'', Some ''tk'')], message_edit_id = None,
     typing_label = ''2 is typing...'', typing_last = 0\<rparr>"

subsection \<open>Handler lemmas\<close>

lemma on_current_live:
  assumes "current_server (app_connections app) = Some a" "servers (app_connections app) a = Some c"
    "conn_result c = Some (Inr s)"
  shows "on_current fs app = map_option (\<lambda>(s', es).
      (app\<lparr>app_connections := (app_connections app)\<lparr>servers := (servers (app_connections app))(a \<mapsto> Connected (Inr s'))\<rparr>\<rparr>, es))
      (fs a s)"
  using assms by (cases "fs a s") (auto simp: on_current_def execute_def Connection_join_result)

lemma on_current_shape:
  "on_current fs app = Some (app', es) \<Longrightarrow> \<exists>cs'. app' = app\<lparr>app_connections := cs'\<rparr>"
proof (cases "current_server (app_connections app)")
  case None
  then show "on_current fs app = Some (app', es) \<Longrightarrow> ?thesis"
    by (simp add: on_current_def) (metis App.update_convs(1) App.surjective)
next
  case (Some a)
  assume "on_current fs app = Some (app', es)"
  then obtain cs' out where "app' = app\<lparr>app_connections := cs'\<rparr>"
    using Some by (auto simp: on_current_def)
  then show ?thesis by blast
qed

lemma on_current_fields:
  assumes "on_current fs app = Some (app', es)"
  shows "typing_last app' = typing_last app" "db_servers app' = db_servers app"
    "typing_label app' = typing_label app" "message_edit_id app' = message_edit_id app"
  using on_current_shape [OF assms] by auto

lemma idle_tick_cases:
  assumes "idle_tick locked now mord rd order app = Some (app', effs)"
  obtains (read_error) e cs1 where "effs = [LogError e]" "app' = app\<lparr>app_connections := cs1\<rparr>"
  | (tick) cs1 outs u where
      "try_read locked now mord rd (tick_event (current_server (app_connections app))) order (app_connections app) =
         Some (cs1, outs, Inr u)"
      "(\<exists>cs2. effs = tick_render (List.map_filter id outs) \<and> app' = app\<lparr>app_connections := cs2\<rparr>) \<or>
       (\<exists>cs2 t. effs = SetTypingLabel t # tick_render (List.map_filter id outs) \<and>
          app' = app\<lparr>app_connections := cs2, typing_label := t\<rparr>)"
proof -
  let ?cur = "current_server (app_connections app)"
  obtain res where tr: "try_read locked now mord rd (tick_event ?cur) order (app_connections app) = Some res"
    using assms by (cases "try_read locked now mord rd (tick_event ?cur) order (app_connections app)")
      (simp_all add: idle_tick_def Let_def)
  obtain cs1 outs r where res: "res = (cs1, outs, r)" by (cases res)
  show ?thesis
  proof (cases r)
    case (Inl e)
    then show ?thesis using assms tr res read_error by (simp add: idle_tick_def Let_def) metis
  next
    case (Inr u)
    have "(\<exists>cs2. effs = tick_render (List.map_filter id outs) \<and> app' = app\<lparr>app_connections := cs2\<rparr>) \<or>
       (\<exists>cs2 t. effs = SetTypingLabel t # tick_render (List.map_filter id outs) \<and>
          app' = app\<lparr>app_connections := cs2, typing_label := t\<rparr>)"
      using assms tr res Inr
      by (simp add: idle_tick_def Let_def split: option.splits prod.splits) blast+
    with tr res Inr show ?thesis using tick by blast
  qed
qed

lemma tick_render_effects:
  "x \<in> set (tick_render evs) \<Longrightarrow> \<exists>b. (x = RenderChannels b \<or> x = RenderMessages b) \<and> b \<in> fst ` set evs"
  by (cases evs rule: rev_cases) (auto simp: tick_render_def Let_def split: list.splits if_splits)

lemma try_read_outs:
  "try_read locked now mord rd cb order cs = Some (cs', outs, r) \<Longrightarrow> \<forall>x\<in>set outs. \<exists>s p ch. x = cb s p ch"
  using poll_loop_outs [of now mord rd cb order "servers cs" "[]"]
  by (auto simp: try_read_def split: if_splits)

lemma tick_events_current:
  assumes "\<forall>x\<in>set outs. \<exists>s p ch. x = tick_event cur s p ch" "ev \<in> set (List.map_filter id outs)"
  shows "cur = Some (fst ev)"
proof -
  have "Some ev \<in> set outs" using assms(2) by (auto simp: List.map_filter_def)
  then obtain s p ch where "Some ev = tick_event cur s p ch" using assms(1) by blast
  then show ?thesis by (simp add: tick_event_def split: if_splits)
qed

subsection \<open>Properties of the handlers\<close>

text \<open>
  C25: When sending a message on the selected session fails, the handler reconnects with the
  saved hash and token of the address unless the error is an I/O error other than a broken
  pipe: every error that is not an I/O error also triggers a reconnection.
\<close>

theorem send_message_reconnect:
  assumes "current_server (app_connections app) = Some a" "servers (app_connections app) a = Some c"
    "conn_result c = Some (Inr s)" "current_channel s = Some ch" "text \<noteq> []"
    "send (addr s) (MessageCreate ch text) = Some e"
  shows "\<exists>app'. send_message fmt send text app = Some (app', Send (addr s) (MessageCreate ch text) (Some e) #
    (if \<exists>k. e = IoError k \<and> k \<noteq> BrokenPipe then [] else reconnect_row fmt (db_servers app) a))"
proof -
  have "send_message fmt send text app = Some (app\<lparr>app_connections := (app_connections app)\<lparr>servers :=
      (servers (app_connections app))(a \<mapsto> Connected (Inr s))\<rparr>\<rparr>,
      Send (addr s) (MessageCreate ch text) (Some e) # reconnect_after fmt (db_servers app) a e)"
    using assms by (simp add: send_message_def on_current_live send_on_def)
  moreover have "reconnect_after fmt (db_servers app) a e =
      (if \<exists>k. e = IoError k \<and> k \<noteq> BrokenPipe then [] else reconnect_row fmt (db_servers app) a)"
    by (cases e) (simp_all add: reconnect_after_def)
  ultimately show ?thesis by simp
qed

text \<open>
  C26: The idle tick only ever sets the typing label: when nobody is typing in the selected
  channel (the tracker's summary is \<open>None\<close>), the label keeps its old text, so a
  "... is typing" label stays after the typing has expired.
\<close>

theorem idle_tick_keeps_stale_label:
  assumes "registry_inv (app_connections app)" "current_server (app_connections app) = Some a"
    "servers (app_connections app) a = Some (Connected (Inr s))"
    "typing_check now (current_channel s) (state s) (synac_typing s) = None" "\<forall>b. rd b = Inr None"
  shows "\<exists>app'. idle_tick locked now mord rd order app = Some (app', []) \<and> typing_label app' = typing_label app"
proof -
  let ?cs = "app_connections app"
  obtain cs1 outs r where tr: "try_read locked now mord rd (tick_event (Some a)) order ?cs = Some (cs1, outs, r)"
    using try_read_total [OF assms(1)] by blast
  have q: "outs = [] \<and> r = Inr () \<and> servers cs1 a = Some (Connected (Inr s))"
  proof (cases locked)
    case True
    then show ?thesis using tr assms(3) by (simp add: try_read_def)
  next
    case False
    then have "poll_loop now mord rd (tick_event (Some a)) order (servers ?cs) [] = Some (servers cs1, outs, r)"
      using tr by (auto simp: try_read_def)
    from poll_loop_quiet [OF assms(5) this assms(3)] show ?thesis by simp
  qed
  then have "execute a (\<lambda>s. Some (s, typing_check now (current_channel s) (state s) (synac_typing s))) (\<lambda>_. None) cs1 =
      Some (cs1\<lparr>servers := (servers cs1)(a \<mapsto> Connected (Inr s))\<rparr>, Some None)"
    using assms(4) by (simp add: execute_def Connection_join_def)
  then show ?thesis using tr q assms(2) by (simp add: idle_tick_def tick_render_def List.map_filter_simps)
qed

text \<open>
  C27: Adding a server whose address is already saved panics: once the form's Ok button has
  saved an address, pressing it again with the same address unwraps a failed \<open>INSERT\<close>.
\<close>

theorem add_server_twice:
  assumes "parse_addr resolve server = Some a" "add_server resolve fmt name server hash app = Some (app', effs)"
  shows "add_server resolve fmt name' server hash' app' = None"
proof -
  have "list_ex (\<lambda>r. fst r = fmt a) (db_servers app')"
    using assms by (auto simp: add_server_def list_ex_iff split: if_splits)
  then show ?thesis using assms(1) by (simp add: add_server_def)
qed

text \<open>
  C28: Typing notifications are throttled: after a keystroke that sends a \<open>Typing\<close>
  packet at time \<open>t1\<close>, keystrokes before \<open>t1 + TYPING_TIMEOUT / 2\<close> send
  nothing and change nothing.
\<close>

theorem notify_typing_throttle:
  assumes "notify_typing send t1 app = Some (app1, effs)" "TYPING_TIMEOUT div 2 \<le> t1 - typing_last app"
    "t1 \<le> t2" "t2 < t1 + TYPING_TIMEOUT div 2"
  shows "notify_typing send t2 app1 = Some (app1, [])"
proof -
  have "typing_last app1 = t1"
    using assms(1,2) on_current_fields(1) [of _ "app\<lparr>typing_last := t1\<rparr>" app1 effs]
    by (auto simp: notify_typing_def)
  moreover have "t2 - t1 < TYPING_TIMEOUT div 2" using assms(3,4) by arith
  ultimately show ?thesis by (simp add: notify_typing_def)
qed

text \<open>
  Scrolling to the top asks for the \<open>LIMIT_BULK\<close> messages before the first
  message held for the selected channel, which (the store being sorted) is its oldest one.
\<close>

theorem load_more_before_oldest:
  assumes "current_server (app_connections app) = Some a" "servers (app_connections app) a = Some c"
    "conn_result c = Some (Inr s)" "current_channel s = Some ch" "messages_inv (synac_messages s)"
    "messages_get ch (synac_messages s) = x # xs"
  shows "\<exists>app'. load_more send True app =
      Some (app', [Send (addr s) (MessageList None (Some (msg_id x)) ch LIMIT_BULK)
                    (send (addr s) (MessageList None (Some (msg_id x)) ch LIMIT_BULK))]) \<and>
    (\<forall>y\<in>set (messages_get ch (synac_messages s)). msg_timestamp x \<le> msg_timestamp y)"
proof -
  have "sorted (map msg_timestamp (x # xs))"
    using messages_inv_sorted [OF assms(5), of ch] assms(6) by simp
  then have "\<forall>y\<in>set (x # xs). msg_timestamp x \<le> msg_timestamp y" by auto
  moreover have "\<exists>app'. load_more send True app =
      Some (app', [Send (addr s) (MessageList None (Some (msg_id x)) ch LIMIT_BULK)
                    (send (addr s) (MessageList None (Some (msg_id x)) ch LIMIT_BULK))])"
    using assms by (simp add: load_more_def on_current_live send_on_def slice_get_def)
  ultimately show ?thesis using assms(6) by simp
qed

text \<open>
  C30: A new, non-empty nickname is sent as a \<open>LoginUpdate\<close> to every live session in
  iteration order (each failure raising an alert) and becomes the registry's nickname.
\<close>

theorem change_nick_broadcast:
  assumes "registry_inv (app_connections app)" "distinct order" "text \<noteq> []" "text \<noteq> nick (app_connections app)"
  shows "\<exists>app'. change_nick order send text app =
      Some (app', concat (map (\<lambda>s. Send (addr s) (LoginUpdate (Some text) None None False)
                                     (send (addr s) (LoginUpdate (Some text) None None False)) #
                                   (case send (addr s) (LoginUpdate (Some text) None None False) of
                                      None \<Rightarrow> [] | Some e \<Rightarrow> [Alert e]))
                (List.map_filter (live_session (servers (app_connections app))) order))) \<and>
    nick (app_connections app') = text"
  using foreach_loop_live [OF assms(2) registry_inv_no_panic [OF assms(1)],
      of "\<lambda>s. (s, send_on send s (LoginUpdate (Some text) None None False) #
              (case send (addr s) (LoginUpdate (Some text) None None False) of None \<Rightarrow> [] | Some e \<Rightarrow> [Alert e]))" "[]"]
    assms(3,4)
  by (auto simp: change_nick_def foreach_def send_on_def Let_def)

text \<open>
  Activating the edit entry on a live session sends a \<open>MessageUpdate\<close> for the
  message being edited, and panics when no message is being edited.
\<close>

theorem edit_message_expect:
  assumes "current_server (app_connections app) = Some a" "servers (app_connections app) a = Some c"
    "conn_result c = Some (Inr s)" "text \<noteq> []"
  shows "edit_message send text app =
    (case message_edit_id app of
       None \<Rightarrow> None
     | Some mid \<Rightarrow> Some (app\<lparr>app_connections := (app_connections app)\<lparr>servers :=
          (servers (app_connections app))(a \<mapsto> Connected (Inr s))\<rparr>\<rparr>,
          [Send (addr s) (MessageUpdate mid text) (send (addr s) (MessageUpdate mid text))]))"
  using assms by (simp add: edit_message_def on_current_live send_on_def split: option.split)

text \<open>
  A read error ends the idle tick: it is logged, and neither the typing label nor any
  view is updated in that tick.
\<close>

theorem idle_tick_read_error:
  assumes "idle_tick locked now mord rd order app = Some (app', effs)" "LogError e \<in> set effs"
  shows "effs = [LogError e] \<and> typing_label app' = typing_label app"
  using assms(1)
proof (cases rule: idle_tick_cases)
  case (read_error e' cs1)
  then show ?thesis using assms(2) by simp
next
  case (tick cs1 outs u)
  then show ?thesis using assms(2) tick_render_effects by fastforce
qed

text \<open>
  The idle tick re-renders only the selected server's channels or messages, never those
  of another server whose packets it read.
\<close>

theorem idle_tick_renders_current:
  assumes "idle_tick locked now mord rd order app = Some (app', effs)"
    "RenderChannels b \<in> set effs \<or> RenderMessages b \<in> set effs"
  shows "current_server (app_connections app) = Some b"
  using assms(1)
proof (cases rule: idle_tick_cases)
  case (read_error e cs1)
  then show ?thesis using assms(2) by simp
next
  case (tick cs1 outs u)
  then have "RenderChannels b \<in> set (tick_render (List.map_filter id outs)) \<or>
      RenderMessages b \<in> set (tick_render (List.map_filter id outs))"
    using assms(2) by auto
  then obtain ev where "ev \<in> set (List.map_filter id outs)" "b = fst ev"
    using tick_render_effects by blast
  then show ?thesis using tick_events_current try_read_outs [OF tick(1)] by blast
qed

subsection \<open>Witnesses\<close>

lemma ex_session_fields [simp]:
  "addr ex_session = ex_addr" "current_channel ex_session = Some 5"
  "messages_get 5 (synac_messages ex_session) = [ex_message]"
  by (simp_all add: ex_session_def ex_synac_def Synac_new_def messages_get_def)

lemma ex_app_inv: "registry_inv (app_connections ex_app)"
proof -
  have "messages_inv (synac_messages ex_session)"
    by (simp add: ex_session_def messages_inv_def timeline_ok_def ex_message_def)
  moreover have "typing_inv (synac_typing ex_session)"
    by (simp add: ex_session_def ex_synac_def Synac_new_def typing_inv_new)
  ultimately show ?thesis
    by (simp add: ex_app_def ex_registry_def registry_inv_def map_ok_def synac_ok_def)
qed

lemma ex_app_current [simp]:
  "current_server (app_connections ex_app) = Some ex_addr"
  "servers (app_connections ex_app) ex_addr = Some (Connected (Inr ex_session))"
  by (simp_all add: ex_app_def ex_registry_def)

theorem send_message_reconnect_witness:
  "\<exists>app'. send_message (\<lambda>_. ''127.0.0.1:8439'') (\<lambda>_ _. Some (OtherError 0)) ''hi'' ex_app =
     Some (app', [Send ex_addr (MessageCreate 5 ''hi'') (Some (OtherError 0)), Reconnect ex_addr ''h'' (Some ''tk'')])"
  using send_message_reconnect [OF ex_app_current conn_result_Connected, of 5 "''hi''" "\<lambda>_ _. Some (OtherError 0)"
      "OtherError 0" "\<lambda>_. ''127.0.0.1:8439''"]
  by (simp add: reconnect_row_def ex_app_def)

theorem idle_tick_keeps_stale_label_witness:
  "\<exists>app'. idle_tick False 20 (\<lambda>_. []) (\<lambda>_. Inr None) [ex_addr] ex_app = Some (app', []) \<and>
     typing_label app' = ''2 is typing...''"
proof -
  have "typing_check 20 (current_channel ex_session) (state ex_session) (synac_typing ex_session) = None"
    by (simp add: typing_check_new ex_session_def ex_synac_def Synac_new_def)
  from idle_tick_keeps_stale_label [OF ex_app_inv ex_app_current this, of "\<lambda>_. Inr None" False "\<lambda>_. []" "[ex_addr]"]
  show ?thesis by (simp add: ex_app_def)
qed

theorem add_server_twice_witness:
  "add_server (\<lambda>h p. Some [(V4 127 0 0 1, p)]) (\<lambda>_. ''127.0.0.1:8439'') ''local'' ''127.0.0.1'' ''h''
     (fst (the (add_server (\<lambda>h p. Some [(V4 127 0 0 1, p)]) (\<lambda>_. ''127.0.0.1:8439'') ''local'' ''127.0.0.1'' ''h''
        (ex_app\<lparr>db_servers := []\<rparr>)))) = None"
proof -
  have pa: "parse_addr (\<lambda>h p. Some [(V4 127 0 0 1, p)]) ''127.0.0.1'' = Some (V4 127 0 0 1, DEFAULT_PORT)"
    by (simp add: parse_addr_def rsplitn2_no_sep)
  have "add_server (\<lambda>h p. Some [(V4 127 0 0 1, p)]) (\<lambda>_. ''127.0.0.1:8439'') ''local'' ''127.0.0.1'' ''h''
        (ex_app\<lparr>db_servers := []\<rparr>) =
      Some (ex_app\<lparr>db_servers := [(''127.0.0.1:8439'', ''local'', ''h'', None)]\<rparr>, [RenderServers])"
    by (simp add: add_server_def pa)
  from add_server_twice [OF pa this] show ?thesis by (simp add: add_server_def pa)
qed

theorem notify_typing_throttle_witness:
  "notify_typing (\<lambda>_ _. None) 12 (ex_app\<lparr>typing_last := 10\<rparr>) = Some (ex_app\<lparr>typing_last := 10\<rparr>, [])"
proof -
  have "notify_typing (\<lambda>_ _. None) 10 ex_app =
      Some (ex_app\<lparr>typing_last := 10\<rparr>, [Send ex_addr (Typing 5) None])"
    by (simp add: notify_typing_def TYPING_TIMEOUT_def on_current_live [OF _ _ conn_result_Connected]
        send_on_def ex_app_def ex_registry_def)
  from notify_typing_throttle [OF this] show ?thesis by (simp add: TYPING_TIMEOUT_def ex_app_def)
qed

theorem load_more_before_oldest_witness:
  "\<exists>app'. load_more (\<lambda>_ _. None) True ex_app =
     Some (app', [Send ex_addr (MessageList None (Some 3) 5 LIMIT_BULK) None])"
proof -
  have "messages_inv (synac_messages ex_session)"
    by (simp add: ex_session_def messages_inv_def timeline_ok_def ex_message_def)
  from load_more_before_oldest [OF ex_app_current conn_result_Connected _ this, of 5 ex_message "[]" "\<lambda>_ _. None"]
  show ?thesis by (simp add: ex_message_def)
qed

theorem change_nick_broadcast_witness:
  "\<exists>app'. change_nick [ex_addr] (\<lambda>_ _. None) ''bob'' ex_app =
     Some (app', [Send ex_addr (LoginUpdate (Some ''bob'') None None False) None]) \<and>
     nick (app_connections app') = ''bob''"
proof -
  have "List.map_filter (live_session (servers (app_connections ex_app))) [ex_addr] = [ex_session]"
    by (simp add: List.map_filter_simps live_session_def conn_result_Connected)
  with change_nick_broadcast [OF ex_app_inv, of "[ex_addr]" "''bob''" "\<lambda>_ _. None"] show ?thesis
    by (simp add: ex_app_def ex_registry_def)
qed

theorem edit_message_expect_witness:
  "edit_message (\<lambda>_ _. None) ''edited'' ex_app = None"
  using edit_message_expect [OF ex_app_current conn_result_Connected, of "''edited''" "\<lambda>_ _. None"]
  by (simp add: ex_app_def)

theorem idle_tick_read_error_witness:
  "\<exists>app'. idle_tick False 0 (\<lambda>_. []) (\<lambda>_. Inl (IoError BrokenPipe)) [ex_addr] ex_app =
     Some (app', [LogError (IoError BrokenPipe)]) \<and> typing_label app' = typing_label ex_app"
proof -
  have run: "idle_tick False 0 (\<lambda>_. []) (\<lambda>_. Inl (IoError BrokenPipe)) [ex_addr] ex_app =
     Some (ex_app, [LogError (IoError BrokenPipe)])"
    by (simp add: idle_tick_def try_read_def Connection_join_def ex_app_def ex_registry_def)
  from idle_tick_read_error [OF run] run show ?thesis by simp
qed

theorem idle_tick_renders_current_witness:
  "current_server (app_connections ex_app) = Some ex_addr \<and>
   RenderChannels ex_addr \<in> set (snd (the (idle_tick False 0 (\<lambda>_. []) (\<lambda>_. Inr (Some (ChannelReceive 7 ''general'')))
      [ex_addr] ex_app)))"
proof -
  obtain app' effs where run: "idle_tick False 0 (\<lambda>_. []) (\<lambda>_. Inr (Some (ChannelReceive 7 ''general''))) [ex_addr] ex_app =
      Some (app', effs)" and r: "RenderChannels ex_addr \<in> set effs"
    by (simp add: idle_tick_def try_read_def Connection_join_def dispatch_def execute_def ex_app_def ex_registry_def
        tick_event_def tick_render_def channel_packet_def List.map_filter_simps typing_check_new
        ex_session_def ex_synac_def Synac_new_def)
  from idle_tick_renders_current [OF run] r run show ?thesis by simp
qed

end
