(* ===== verification/Startup.thy ===== *)
theory Startup
  imports Client
begin

text \<open>
  The program's \<open>main\<close> in \<open>src/src/main.rs\<close>: its start-up and its main loop. Start-up
  locates the data directory (\<open>xdg\<close>), opens the SQLite database, creates the
  \<open>data\<close> and \<open>servers\<close> tables, reads the saved nickname (falling back to the
  \<open>USER\<close> environment variable, then to \<open>unknown\<close>; the Unix build is modelled),
  initialises GTK and builds the \<open>App\<close>, whose registry is \<open>Connections::new\<close> over
  the saved servers. The outcomes of these library calls are the fields of the record
  \<open>host\<close>; an early \<open>return\<close> after a message on standard error is \<open>Inl\<close> with
  that message, a failed \<open>unwrap\<close> or \<open>expect\<close> is \<open>None\<close>. The main loop
  \<open>gtk::main()\<close> calls the idle closure again and again, since it returns
  \<open>Continue(true)\<close>; \<open>idle_run\<close> is a run of such ticks in which the user does
  nothing, each tick with its own lock state, clock reading and reads.
\<close>

record host =
  host_xdg :: "string + unit"
  host_data_file :: bool
  host_place :: "string + unit"
  host_db_open :: "string + unit"
  host_create_data :: bool
  host_create_servers :: bool
  host_nick_rows :: "string list option"
  host_user :: "string option"
  host_gtk :: "string + unit"
  host_servers :: "db_row list"
  host_now :: nat

text \<open>The nickname block: the first row of the query, else \<open>$USER\<close>, else \<open>unknown\<close>.\<close>

definition startup_nick :: "string list \<Rightarrow> string option \<Rightarrow> string" where
  "startup_nick rows env_user =
     (case rows of
        r # _ \<Rightarrow> r
      | [] \<Rightarrow> (case env_user of Some u \<Rightarrow> u | None \<Rightarrow> ''unknown''))"

text \<open>\<open>SELECT ip, hash, token FROM servers\<close>, the query of \<open>Connections::new\<close>.\<close>

definition server_rows :: "db_row list \<Rightarrow> server_row list" where
  "server_rows rows = map (\<lambda>(ip, _, hh, tk). (ip, hh, tk)) rows"

definition main_startup :: "(string \<Rightarrow> u16 \<Rightarrow> socket_addr list option) \<Rightarrow> (socket_addr \<Rightarrow> Transport) \<Rightarrow>
    host \<Rightarrow> (string + App) option" where
  "main_startup resolve net h =
     (case host_xdg h of
        Inl err \<Rightarrow> Some (Inl (''error initializing xdg: '' @ err))
      | Inr _ \<Rightarrow>
          (case (if host_data_file h then Inr () else host_place h) of
             Inl err \<Rightarrow> Some (Inl (''error placing config: '' @ err))
           | Inr _ \<Rightarrow>
               (case host_db_open h of
                  Inl err \<Rightarrow> Some (Inl (''Failed to open database'' @ [CHR 0x0A] @ err))
                | Inr _ \<Rightarrow>
                    (if \<not> host_create_data h then None
                     else if \<not> host_create_servers h then None
                     else
                       (case host_nick_rows h of
                          None \<Rightarrow> None
                        | Some rows \<Rightarrow>
                            (let nk = startup_nick rows (host_user h)
                             in case host_gtk h of
                                  Inl err \<Rightarrow> Some (Inl (''gtk error: '' @ err))
                                | Inr _ \<Rightarrow>
                                    Some (Inr \<lparr>app_connections = Connections_new resolve net (server_rows (host_servers h)) nk,
                                      db_servers = host_servers h, message_edit_id = None, typing_label = '''',
                                      typing_last = host_now h\<rparr>)))))))"

text \<open>
  The main loop: the idle closure on each tick of a run, effects in order; a panic in a tick
  ends the run.
\<close>

fun idle_run :: "(socket_addr \<Rightarrow> usize list) \<Rightarrow> socket_addr list \<Rightarrow>
    (bool \<times> nat \<times> (socket_addr \<Rightarrow> Error + packet option)) list \<Rightarrow> App \<Rightarrow> (App \<times> ui_effect list) option" where
  "idle_run mord order [] app = Some (app, [])"
| "idle_run mord order ((locked, now, rd) # ticks) app =
     (case idle_tick locked now mord rd order app of
        None \<Rightarrow> None
      | Some (app1, effs1) \<Rightarrow> map_option (\<lambda>(app2, effs2). (app2, effs1 @ effs2)) (idle_run mord order ticks app1))"

subsection \<open>Example values\<close>

text \<open>
  For the witnesses: a first start on a Unix account \<open>alice\<close>, with no nickname saved and
  one saved server; and the application of \<open>Client\<close> while its dial is still in flight.
\<close>

definition ex_host :: host where
  "ex_host = \<lparr>host_xdg = Inr (), host_data_file = False, host_place = Inr (), host_db_open = Inr (),
     host_create_data = True, host_create_servers = True, host_nick_rows = Some [], host_user = Some ''alice'',
     host_gtk = Inr (), host_servers = [(''127.0.0.1'', ''local'', ''h'', Some ''tk'')], host_now = 0\<rparr>"

definition ex_resolve :: "string \<Rightarrow> u16 \<Rightarrow> socket_addr list option" where
  "ex_resolve hn p = Some [(V4 127 0 0 1, p)]"

definition ex_net :: "socket_addr \<Rightarrow> Transport" where
  "ex_net a = \<lparr>tr_open = None, tr_send = (\<lambda>_. None), tr_reply = (\<lambda>_. Inr (LoginSuccess False 1 ''tk'')),
     tr_nonblock = None, tr_db_ok = True\<rparr>"

definition ex_pending_app :: App where
  "ex_pending_app = ex_app\<lparr>app_connections :=
     (app_connections ex_app)\<lparr>servers := [ex_addr \<mapsto> Connecting (Some (Inr ex_session))]\<rparr>\<rparr>"

subsection \<open>Start-up\<close>

lemma main_startup_Inr:
  assumes "main_startup resolve net h = Some (Inr app)"
  shows "host_xdg h = Inr () \<and> (host_data_file h \<or> host_place h = Inr ()) \<and> host_db_open h = Inr () \<and>
    host_create_data h \<and> host_create_servers h \<and> host_gtk h = Inr () \<and>
    (\<exists>rows. host_nick_rows h = Some rows \<and>
       app = \<lparr>app_connections = Connections_new resolve net (server_rows (host_servers h)) (startup_nick rows (host_user h)),
         db_servers = host_servers h, message_edit_id = None, typing_label = '''', typing_last = host_now h\<rparr>)"
  using assms
  by (auto simp: main_startup_def Let_def split: sum.splits if_splits option.splits)

subsection \<open>The main loop\<close>

text \<open>
  The idle tick's own callback of \<open>execute\<close> returns the session unchanged, so it
  changes the registry as a callback with no output would.
\<close>

lemma execute_unchanged:
  assumes "\<forall>s. \<exists>x. fs s = Some (s, x)" "execute a fs fe cs = Some (cs', out)"
  shows "\<exists>out'. execute a (\<lambda>s. Some (s, ())) (\<lambda>_. ()) cs = Some (cs', out')"
proof (cases "servers cs a")
  case (Some c)
  then show ?thesis
  proof (cases "Connection_join c")
    case (Some cr)
    then show ?thesis using assms \<open>servers cs a = Some c\<close>
      by (cases cr) (auto simp: execute_def split: sum.splits, metis option.inject prod.inject)
  qed (use assms in \<open>simp add: execute_def\<close>)
qed (use assms in \<open>simp add: execute_def\<close>)

lemma keeps_ok_unchanged: "keeps_ok (\<lambda>s. Some (s, ()))"
  by (simp add: keeps_ok_def)

lemma idle_tick_conns:
  assumes "idle_tick locked now mord rd order app = Some (app', effs)"
  obtains cs1 outs r where
    "try_read locked now mord rd (tick_event (current_server (app_connections app))) order (app_connections app) =
       Some (cs1, outs, r)"
    "app_connections app' = cs1 \<or>
     (\<exists>a lbl. execute a (\<lambda>s. Some (s, typing_check now (current_channel s) (state s) (synac_typing s)))
        (\<lambda>_. None) cs1 = Some (app_connections app', lbl))"
proof -
  let ?cur = "current_server (app_connections app)"
  obtain cs1 outs r where tr: "try_read locked now mord rd (tick_event ?cur) order (app_connections app) = Some (cs1, outs, r)"
    using assms by (cases "try_read locked now mord rd (tick_event ?cur) order (app_connections app)")
      (auto simp: idle_tick_def Let_def)
  have "app_connections app' = cs1 \<or>
     (\<exists>a lbl. execute a (\<lambda>s. Some (s, typing_check now (current_channel s) (state s) (synac_typing s)))
        (\<lambda>_. None) cs1 = Some (app_connections app', lbl))"
  proof (cases r)
    case (Inl e)
    then show ?thesis using assms tr by (auto simp: idle_tick_def)
  next
    case (Inr u)
    show ?thesis
    proof (cases ?cur)
      case None
      then show ?thesis using assms tr Inr by (auto simp: idle_tick_def split: option.splits)
    next
      case (Some a)
      let ?fs = "\<lambda>s. Some (s, typing_check now (current_channel s) (state s) (synac_typing s))"
      obtain cs2 lbl where ex: "execute a ?fs (\<lambda>_. None) cs1 = Some (cs2, lbl)"
        using assms tr Inr Some by (cases "execute a ?fs (\<lambda>_. None) cs1") (auto simp: idle_tick_def Let_def)
      have "app_connections app' = cs2"
        using assms tr Inr Some ex by (auto simp: idle_tick_def Let_def split: option.splits)
      then show ?thesis using ex by blast
    qed
  qed
  with tr that show ?thesis by blast
qed

lemma try_read_evolves:
  assumes "registry_inv cs" "try_read locked now mord rd cb order cs = Some (cs1, outs, r)"
  shows "registry_inv cs1 \<and> evolves (servers cs) (servers cs1)"
  using assms poll_loop_ok [of "servers cs" now mord rd cb order "[]"]
  by (auto simp: try_read_def registry_inv_def split: if_splits)

lemma tick_execute_evolves:
  assumes "registry_inv cs1" "cs' = cs1 \<or>
     (\<exists>a lbl. execute a (\<lambda>s. Some (s, typing_check now (current_channel s) (state s) (synac_typing s)))
        (\<lambda>_. None) cs1 = Some (cs', lbl))"
  shows "registry_inv cs' \<and> evolves (servers cs1) (servers cs')"
proof (cases "cs' = cs1")
  case False
  let ?fs = "\<lambda>s. Some (s, typing_check now (current_channel s) (state s) (synac_typing s))"
  obtain a lbl where ex: "execute a ?fs (\<lambda>_. None) cs1 = Some (cs', lbl)"
    using assms(2) False by blast
  have "\<forall>s. \<exists>x. ?fs s = Some (s, x)" by simp
  from execute_unchanged [OF this ex]
  obtain out' where "execute a (\<lambda>s. Some (s, ())) (\<lambda>_. ()) cs1 = Some (cs', out')"
    by blast
  then show ?thesis using execute_ok [OF keeps_ok_unchanged] assms(1) by blast
qed (use assms(1) in simp)

lemma idle_tick_evolves:
  assumes "registry_inv (app_connections app)" "idle_tick locked now mord rd order app = Some (app', effs)"
  shows "registry_inv (app_connections app') \<and> evolves (servers (app_connections app)) (servers (app_connections app'))"
proof -
  obtain cs1 outs r where tr: "try_read locked now mord rd (tick_event (current_server (app_connections app))) order
      (app_connections app) = Some (cs1, outs, r)"
    and cs: "app_connections app' = cs1 \<or>
     (\<exists>a lbl. execute a (\<lambda>s. Some (s, typing_check now (current_channel s) (state s) (synac_typing s)))
        (\<lambda>_. None) cs1 = Some (app_connections app', lbl))"
    using idle_tick_conns [OF assms(2)] by blast
  have one: "registry_inv cs1 \<and> evolves (servers (app_connections app)) (servers cs1)"
    by (rule try_read_evolves [OF assms(1) tr])
  then show ?thesis using tick_execute_evolves [OF _ cs] evolves_trans by blast
qed

lemma evolves_resolved:
  assumes "\<forall>a c. m a = Some c \<longrightarrow> (\<exists>r. c = Connected r)" "evolves m m'"
  shows "\<forall>a c. m' a = Some c \<longrightarrow> (\<exists>r. c = Connected r)"
proof (intro allI impI)
  fix a c
  assume m': "m' a = Some c"
  then have "a \<in> dom m" using assms(2) by (auto simp: evolves_def simp del: split_paired_All)
  then obtain c0 where m: "m a = Some c0" by blast
  then obtain r where "c0 = Connected r" using assms(1) by blast
  moreover obtain c' where "m' a = Some c'" "conn_step\<^sup>*\<^sup>* c0 c'" using evolvesD [OF assms(2) m] by blast
  ultimately have "conn_step\<^sup>*\<^sup>* (Connected r) c" using m' by simp
  then show "\<exists>r. c = Connected r" using conn_step_Connected by blast
qed

lemma idle_run_append:
  "idle_run mord order (xs @ ys) app =
     (case idle_run mord order xs app of
        None \<Rightarrow> None
      | Some (app1, e1) \<Rightarrow> map_option (\<lambda>(app2, e2). (app2, e1 @ e2)) (idle_run mord order ys app1))"
proof (induction mord order xs app rule: idle_run.induct)
  case (1 mord order app)
  show ?case by (cases "idle_run mord order ys app") auto
next
  case (2 mord order locked now rd ticks app)
  then show ?case by (auto split: option.splits simp: option.map_comp split_def comp_def)
qed

lemma idle_run_evolves:
  assumes "registry_inv (app_connections app)" "idle_run mord order ticks app = Some (app', effs)"
  shows "registry_inv (app_connections app') \<and> evolves (servers (app_connections app)) (servers (app_connections app'))"
  using assms
proof (induction mord order ticks app arbitrary: effs rule: idle_run.induct)
  case (1 mord order app)
  then show ?case by simp
next
  case (2 mord order locked now rd ticks app)
  then obtain app1 effs1 effs2 where t: "idle_tick locked now mord rd order app = Some (app1, effs1)"
    and r: "idle_run mord order ticks app1 = Some (app', effs2)"
    by (auto split: option.splits)
  have one: "registry_inv (app_connections app1) \<and> evolves (servers (app_connections app)) (servers (app_connections app1))"
    by (rule idle_tick_evolves [OF "2.prems"(1) t])
  with "2.IH" [OF t refl _ r] show ?case
    using evolves_trans by blast
qed

lemma try_read_resolves_all:
  assumes "dom (servers cs) \<subseteq> set order" "\<forall>b e. rd b \<noteq> Inl e"
    "try_read False now mord rd cb order cs = Some (cs1, outs, r)"
  shows "\<forall>a c. servers cs1 a = Some c \<longrightarrow> (\<exists>r. c = Connected r)"
proof (intro allI impI)
  fix a c
  assume c: "servers cs1 a = Some c"
  have loop: "poll_loop now mord rd cb order (servers cs) [] = Some (servers cs1, outs, r)"
    using assms(3) by (auto simp: try_read_def)
  then have "r = Inr ()" using poll_loop_frame [OF loop] assms(2) by blast
  have "a \<in> set order"
  proof (rule ccontr)
    assume "a \<notin> set order"
    then have "servers cs1 a = servers cs a" by (rule poll_loop_other [OF loop])
    then show False using assms(1) c \<open>a \<notin> set order\<close> by (metis domI subsetD)
  qed
  then show "\<exists>r. c = Connected r" using poll_loop_resolves [OF loop [unfolded \<open>r = Inr ()\<close>] c] by blast
qed

lemma idle_tick_resolves:
  assumes "registry_inv (app_connections app)" "dom (servers (app_connections app)) \<subseteq> set order"
    "\<forall>b e. rd b \<noteq> Inl e" "idle_tick False now mord rd order app = Some (app', effs)"
  shows "\<forall>a c. servers (app_connections app') a = Some c \<longrightarrow> (\<exists>r. c = Connected r)"
proof -
  obtain cs1 outs r where tr: "try_read False now mord rd (tick_event (current_server (app_connections app))) order
      (app_connections app) = Some (cs1, outs, r)"
    and cs: "app_connections app' = cs1 \<or>
     (\<exists>a lbl. execute a (\<lambda>s. Some (s, typing_check now (current_channel s) (state s) (synac_typing s)))
        (\<lambda>_. None) cs1 = Some (app_connections app', lbl))"
    using idle_tick_conns [OF assms(4)] by blast
  have "registry_inv cs1" using try_read_evolves [OF assms(1) tr] by blast
  with cs have "evolves (servers cs1) (servers (app_connections app'))" using tick_execute_evolves by blast
  with try_read_resolves_all [OF assms(2,3) tr] show ?thesis by (rule evolves_resolved)
qed


subsection \<open>Properties\<close>

text \<open>
  A start-up that reaches the main loop has found its data directory, opened the
  database, created both tables and initialised GTK; its registry is \<open>Connections::new\<close>
  over the saved servers with the saved nickname, else the \<open>USER\<close> environment variable,
  else \<open>unknown\<close>; no message is being edited and the typing label is empty.
\<close>

theorem main_startup_nick:
  assumes "main_startup resolve net h = Some (Inr app)"
  shows "host_xdg h = Inr () \<and> host_db_open h = Inr () \<and> host_create_data h \<and> host_create_servers h \<and>
    host_gtk h = Inr () \<and>
    app_connections app = Connections_new resolve net (server_rows (host_servers h))
      (case host_nick_rows h of
         Some (r # _) \<Rightarrow> r
       | _ \<Rightarrow> (case host_user h of Some u \<Rightarrow> u | None \<Rightarrow> ''unknown'')) \<and>
    db_servers app = host_servers h \<and> message_edit_id app = None \<and> typing_label app = ''''"
proof -
  obtain rows where rows: "host_nick_rows h = Some rows" and
    app: "app = \<lparr>app_connections = Connections_new resolve net (server_rows (host_servers h)) (startup_nick rows (host_user h)),
         db_servers = host_servers h, message_edit_id = None, typing_label = '''', typing_last = host_now h\<rparr>"
    using main_startup_Inr [OF assms] by blast
  have "startup_nick rows (host_user h) =
      (case host_nick_rows h of Some (r # _) \<Rightarrow> r | _ \<Rightarrow> (case host_user h of Some u \<Rightarrow> u | None \<Rightarrow> ''unknown''))"
    using rows by (simp add: startup_nick_def split: list.splits)
  then show ?thesis using main_startup_Inr [OF assms] app by simp
qed

text \<open>
  C32: Every dial is eventually joined. In a run of idle ticks from a well-formed registry
  whose iteration order lists every address, once one tick finds the lock free and reads
  without error, no entry is pending any more, and none is after any later tick.
\<close>

theorem idle_run_resolves_dials:
  assumes "registry_inv (app_connections app)" "dom (servers (app_connections app)) \<subseteq> set order"
    "idle_run mord order ticks app = Some (app', effs)" "(False, now, rd) \<in> set ticks" "\<forall>b e. rd b \<noteq> Inl e"
  shows "\<forall>a c. servers (app_connections app') a = Some c \<longrightarrow> (\<exists>r. c = Connected r)"
proof -
  obtain pre post where ticks: "ticks = pre @ (False, now, rd) # post"
    using split_list [OF assms(4)] by blast
  obtain app1 e1 where r1: "idle_run mord order pre app = Some (app1, e1)"
    and r2: "map_option (\<lambda>(app2, e2). (app2, e1 @ e2)) (idle_run mord order ((False, now, rd) # post) app1) =
      Some (app', effs)"
    using assms(3) unfolding ticks idle_run_append by (auto split: option.splits)
  obtain app2 e2 e3 where t: "idle_tick False now mord rd order app1 = Some (app2, e2)"
    and r3: "idle_run mord order post app2 = Some (app', e3)"
    using r2 by (auto split: option.splits)
  have ev1: "registry_inv (app_connections app1) \<and> evolves (servers (app_connections app)) (servers (app_connections app1))"
    by (rule idle_run_evolves [OF assms(1) r1])
  then have "dom (servers (app_connections app1)) \<subseteq> set order"
    using assms(2) by (simp add: evolves_def)
  then have all2: "\<forall>a c. servers (app_connections app2) a = Some c \<longrightarrow> (\<exists>r. c = Connected r)"
    using idle_tick_resolves [OF _ _ assms(5) t] ev1 by blast
  have "registry_inv (app_connections app2)" using idle_tick_evolves [OF _ t] ev1 by blast
  from idle_run_evolves [OF this r3] all2 show ?thesis using evolves_resolved by blast
qed

subsection \<open>Witnesses\<close>

theorem main_startup_nick_witness:
  "main_startup ex_resolve ex_net ex_host = Some (Inr \<lparr>app_connections =
       Connections_new ex_resolve ex_net [(''127.0.0.1'', ''h'', Some ''tk'')] ''alice'',
       db_servers = [(''127.0.0.1'', ''local'', ''h'', Some ''tk'')], message_edit_id = None, typing_label = '''',
       typing_last = 0\<rparr>) \<and>
   nick (Connections_new ex_resolve ex_net [(''127.0.0.1'', ''h'', Some ''tk'')] ''alice'') = ''alice''"
proof -
  have run: "main_startup ex_resolve ex_net ex_host = Some (Inr \<lparr>app_connections =
       Connections_new ex_resolve ex_net [(''127.0.0.1'', ''h'', Some ''tk'')] ''alice'',
       db_servers = [(''127.0.0.1'', ''local'', ''h'', Some ''tk'')], message_edit_id = None, typing_label = '''',
       typing_last = 0\<rparr>)"
    by (simp add: main_startup_def ex_host_def startup_nick_def server_rows_def)
  from main_startup_nick [OF run] show ?thesis using run by (simp add: ex_host_def Connections_new_def)
qed

theorem idle_run_resolves_dials_witness:
  "\<exists>app' effs. idle_run (\<lambda>_. []) [ex_addr] [(True, 0, \<lambda>_. Inr None), (False, 1, \<lambda>_. Inr None)] ex_pending_app =
       Some (app', effs) \<and>
     (\<forall>a c. servers (app_connections app') a = Some c \<longrightarrow> (\<exists>r. c = Connected r))"
proof -
  have inv: "registry_inv (app_connections ex_pending_app)"
  proof -
    have "synac_ok ex_session"
      using synac_of_ok [of "servers (app_connections ex_app)" ex_addr] ex_app_inv
      by (simp add: registry_inv_def conn_result_Connected)
    then show ?thesis
      by (simp add: ex_pending_app_def registry_inv_def map_ok_def conn_ok_def conn_result_def)
  qed
  have dom: "dom (servers (app_connections ex_pending_app)) \<subseteq> set [ex_addr]"
    by (simp add: ex_pending_app_def)
  obtain app' effs where run: "idle_run (\<lambda>_. []) [ex_addr] [(True, 0, \<lambda>_. Inr None), (False, 1, \<lambda>_. Inr None)]
      ex_pending_app = Some (app', effs)"
    by (simp add: ex_pending_app_def ex_app_def ex_registry_def idle_tick_def try_read_def
        Connection_join_def execute_def typing_check_new ex_session_def ex_synac_def Synac_new_def
        Let_def tick_render_def)
  from idle_run_resolves_dials [OF inv dom run, where now = 1 and rd = "\<lambda>_. Inr None"] run show ?thesis by auto
qed

end
