(* ===== verification/Run.thy ===== *)
theory Run
  imports Startup
begin

text \<open>
  The application as a state machine. \<open>app_step\<close> is one event of the GTK main loop on
  the application state: a handler of \<open>main.rs\<close> (nickname, pagination, edit, typing,
  send, add server, create channel, the idle tick) or one of the three changes that the
  rendering functions of \<open>functions.rs\<close> (not among the sources) make through the
  interfaces of the sources: selecting a server (\<open>Connections::set_current\<close>), storing the
  session of an interactive login or a reconnection (\<open>Connections::insert\<close> of a
  well-formed session) and starting to edit a message (\<open>message_edit_id\<close>). The
  well-formedness of the state, \<open>app_ok\<close>, is the registry invariant together with the
  key of the \<open>servers\<close> table: \<open>ip TEXT NOT NULL PRIMARY KEY\<close>, so no two rows
  share an address text. Every event keeps it, so it holds in every state reachable from a
  successful start-up.
\<close>

inductive app_step :: "App \<Rightarrow> App \<Rightarrow> bool" where
  change_nick: "change_nick order send text app = Some (app', effs) \<Longrightarrow> app_step app app'"
| load_more: "load_more send edge_top app = Some (app', effs) \<Longrightarrow> app_step app app'"
| edit_message: "edit_message send text app = Some (app', effs) \<Longrightarrow> app_step app app'"
| notify_typing: "notify_typing send now app = Some (app', effs) \<Longrightarrow> app_step app app'"
| send_message: "send_message fmt send text app = Some (app', effs) \<Longrightarrow> app_step app app'"
| add_server: "add_server resolve fmt name server hash app = Some (app', effs) \<Longrightarrow> app_step app app'"
| create_channel: "create_channel send name mb mu app = Some (app', effs) \<Longrightarrow> app_step app app'"
| idle_tick: "idle_tick locked now mord rd order app = Some (app', effs) \<Longrightarrow> app_step app app'"
| select_server: "app_step app (app\<lparr>app_connections := set_current a (app_connections app)\<rparr>)"
| insert_session: "synac_ok s \<Longrightarrow> app_step app (app\<lparr>app_connections := Connections_insert a s (app_connections app)\<rparr>)"
| start_edit: "app_step app (app\<lparr>message_edit_id := Some mid\<rparr>)"

definition app_ok :: "App \<Rightarrow> bool" where
  "app_ok app \<longleftrightarrow> registry_inv (app_connections app) \<and> distinct (map fst (db_servers app))"

subsection \<open>Callbacks that keep the session\<close>

text \<open>
  Every handler's callback returns the session it was given; such a callback changes the
  registry as the callback with no output does.
\<close>

lemma execute_keeps:
  assumes "\<forall>s r. fs s = Some r \<longrightarrow> fst r = s" "execute a fs fe cs = Some (cs', out)"
  shows "\<exists>out'. execute a (\<lambda>s. Some (s, ())) (\<lambda>_. ()) cs = Some (cs', out')"
proof (cases "servers cs a")
  case (Some c)
  then show ?thesis
  proof (cases "Connection_join c")
    case (Some cr)
    obtain c' r where cr: "cr = (c', r)" by (cases cr)
    show ?thesis
    proof (cases r)
      case (Inr s)
      then obtain x where "fs s = Some (s, x)"
        using assms Some cr \<open>servers cs a = Some c\<close> by (cases "fs s") (auto simp: execute_def)
      then show ?thesis using assms(2) Some cr Inr \<open>servers cs a = Some c\<close> by (simp add: execute_def)
    qed (use assms Some cr \<open>servers cs a = Some c\<close> in \<open>auto simp: execute_def\<close>)
  qed (use assms in \<open>simp add: execute_def\<close>)
qed (use assms in \<open>simp add: execute_def\<close>)

lemma on_current_keeps:
  assumes "\<forall>a s r. fs a s = Some r \<longrightarrow> fst r = s" "registry_inv (app_connections app)"
    "on_current fs app = Some (app', es)"
  shows "registry_inv (app_connections app') \<and> db_servers app' = db_servers app"
proof (cases "current_server (app_connections app)")
  case None
  then show ?thesis using assms by (simp add: on_current_def)
next
  case (Some a)
  then obtain cs' out where ex: "execute a (fs a) (\<lambda>_. []) (app_connections app) = Some (cs', out)"
    and app': "app' = app\<lparr>app_connections := cs'\<rparr>"
    using assms(3) by (auto simp: on_current_def)
  obtain out' where "execute a (\<lambda>s. Some (s, ())) (\<lambda>_. ()) (app_connections app) = Some (cs', out')"
    using execute_keeps [OF _ ex] assms(1) by blast
  then have "registry_inv cs'" using execute_ok [OF keeps_ok_unchanged assms(2)] by blast
  then show ?thesis using app' by simp
qed

lemma foreach_loop_keeps:
  assumes "\<forall>s. fst (f s) = s" "foreach_loop f order m outs = Some (m', x)"
  shows "\<exists>x'. foreach_loop (\<lambda>s. (s, ())) order m outs' = Some (m', x')"
  using assms(2)
proof (induction order arbitrary: m outs outs')
  case Nil
  then show ?case by simp
next
  case (Cons b order)
  show ?case
  proof (cases "m b")
    case None
    with Cons show ?thesis by simp
  next
    case (Some c)
    show ?thesis
    proof (cases "Connection_join c")
      case None
      with Cons.prems Some show ?thesis by simp
    next
      case (Some cr)
      obtain c' r where cr: "cr = (c', r)" by (cases cr)
      show ?thesis
      proof (cases r)
        case (Inl e)
        with Cons \<open>m b = Some c\<close> Some cr show ?thesis by simp
      next
        case (Inr s)
        obtain y where fs: "f s = (s, y)" using assms(1) by (metis prod.collapse)
        with Cons \<open>m b = Some c\<close> Some cr Inr show ?thesis by simp
      qed
    qed
  qed
qed


subsection \<open>Every event keeps the state well-formed\<close>

lemma change_nick_ok:
  assumes "app_ok app" "change_nick order send text app = Some (app', effs)"
  shows "app_ok app'"
proof (cases "text = [] \<or> text = nick (app_connections app)")
  case True
  then show ?thesis using assms by (simp add: change_nick_def)
next
  case False
  let ?p = "LoginUpdate (Some text) None None False"
  let ?f = "\<lambda>s. (s, send_on send s ?p # (case send (addr s) ?p of None \<Rightarrow> [] | Some e \<Rightarrow> [Alert e]))"
  obtain m outs where loop: "foreach_loop ?f order (servers (app_connections app)) [] = Some (m, outs)"
    and app': "app' = app\<lparr>app_connections := (app_connections app)\<lparr>servers := m, nick := text\<rparr>\<rparr>"
    using assms(2) False by (auto simp: change_nick_def foreach_def Let_def)
  obtain x' where "foreach_loop (\<lambda>s. (s, ())) order (servers (app_connections app)) [] = Some (m, x')"
    using foreach_loop_keeps [OF _ loop] by auto
  moreover have "keeps_ok (\<lambda>s. Some (s, ()))" by (rule keeps_ok_unchanged)
  ultimately have "map_ok m"
    using foreach_loop_ok [of "\<lambda>s. (s, ())" "servers (app_connections app)" order "[]"] assms(1)
    by (auto simp: app_ok_def registry_inv_def)
  then show ?thesis using assms(1) app' by (simp add: app_ok_def registry_inv_def)
qed

lemma on_current_app_ok:
  assumes "on_current fs app = Some (app', es)" "app_ok app" "\<And>a s r. fs a s = Some r \<Longrightarrow> fst r = s"
  shows "app_ok app'"
  using on_current_keeps [OF _ _ assms(1)] assms(2,3) by (simp add: app_ok_def)

lemma app_ok_typing_last: "app_ok (app\<lparr>typing_last := t\<rparr>) = app_ok app"
  by (simp add: app_ok_def)

lemma load_more_ok:
  assumes "app_ok app" "load_more send t app = Some (app', effs)"
  shows "app_ok app'"
  using assms unfolding load_more_def
  by (auto split: option.splits if_split_asm elim!: on_current_app_ok)

lemma edit_message_ok:
  assumes "app_ok app" "edit_message send t app = Some (app', effs)"
  shows "app_ok app'"
  using assms unfolding edit_message_def
  by (auto split: option.splits if_split_asm elim!: on_current_app_ok)

lemma notify_typing_ok:
  assumes "app_ok app" "notify_typing send now app = Some (app', effs)"
  shows "app_ok app'"
  using assms unfolding notify_typing_def
  by (auto simp: app_ok_typing_last split: option.splits if_split_asm elim!: on_current_app_ok)

lemma send_message_ok:
  assumes "app_ok app" "send_message fmt send t app = Some (app', effs)"
  shows "app_ok app'"
  using assms unfolding send_message_def
  by (auto simp: Let_def split: option.splits if_split_asm elim!: on_current_app_ok)

lemma create_channel_ok:
  assumes "app_ok app" "create_channel send nm mb mu app = Some (app', effs)"
  shows "app_ok app'"
  using assms unfolding create_channel_def
  by (auto simp: Let_def split: option.splits if_splits elim!: on_current_app_ok)

lemma add_server_ok:
  assumes "app_ok app" "add_server resolve fmt name server hash app = Some (app', effs)"
  shows "app_ok app'"
  using assms by (auto simp: add_server_def app_ok_def list_ex_iff split: option.splits if_splits) (metis fst_conv)

lemma idle_tick_ok:
  assumes "app_ok app" "idle_tick locked now mord rd order app = Some (app', effs)"
  shows "app_ok app'"
proof -
  have "registry_inv (app_connections app')"
    using idle_tick_evolves [OF _ assms(2)] assms(1) by (simp add: app_ok_def)
  moreover have "db_servers app' = db_servers app"
    using assms(2) by (cases rule: idle_tick_cases) auto
  ultimately show ?thesis using assms(1) by (simp add: app_ok_def)
qed

lemma app_step_ok:
  assumes "app_step app app'" "app_ok app"
  shows "app_ok app'"
  using assms
proof (induction rule: app_step.induct)
  case (select_server app a)
  then show ?case by (simp add: app_ok_def registry_inv_def set_current_def)
next
  case (insert_session s app a)
  then show ?case
    by (simp add: app_ok_def registry_inv_def Connections_insert_def map_ok_upd conn_ok_def conn_result_def)
next
  case (start_edit app mid)
  then show ?case by (simp add: app_ok_def)
qed (blast intro: change_nick_ok load_more_ok edit_message_ok notify_typing_ok send_message_ok add_server_ok
       create_channel_ok idle_tick_ok)+

lemma main_startup_ok:
  assumes "main_startup resolve net h = Some (Inr app)" "distinct (map fst (host_servers h))"
  shows "app_ok app"
  using main_startup_Inr [OF assms(1)] assms(2) Connections_new_ok by (auto simp: app_ok_def)


subsection \<open>Well-formedness of every reachable state\<close>

text \<open>
  The application state keeps its type invariant: in every state reachable from a
  successful start-up (over a \<open>servers\<close> table whose addresses are its primary key) by
  any sequence of handlers, idle ticks, server selections, stored logins and edit starts,
  the registry is well-formed (no entry whose dial panicked, every session's store sorted
  and per-channel, its typing tracker with one entry per user) and no two rows of the
  \<open>servers\<close> table share an address.
\<close>

theorem reachable_app_ok:
  assumes "main_startup resolve net h = Some (Inr app0)" "distinct (map fst (host_servers h))"
    "app_step\<^sup>*\<^sup>* app0 app"
  shows "app_ok app"
  using assms(3)
proof (induction rule: rtranclp_induct)
  case base
  then show ?case by (rule main_startup_ok [OF assms(1,2)])
next
  case (step app1 app2)
  then show ?case using app_step_ok by blast
qed

subsection \<open>Witness\<close>

theorem reachable_app_ok_witness:
  "app_ok (\<lparr>app_connections = Connections_new ex_resolve ex_net [(''127.0.0.1'', ''h'', Some ''tk'')] ''alice'',
       db_servers = [(''127.0.0.1'', ''local'', ''h'', Some ''tk'')], message_edit_id = None, typing_label = '''',
       typing_last = 0\<rparr>\<lparr>message_edit_id := Some 3\<rparr>)"
proof -
  let ?app0 = "\<lparr>app_connections = Connections_new ex_resolve ex_net [(''127.0.0.1'', ''h'', Some ''tk'')] ''alice'',
       db_servers = [(''127.0.0.1'', ''local'', ''h'', Some ''tk'')], message_edit_id = None, typing_label = '''',
       typing_last = 0\<rparr>"
  have run: "main_startup ex_resolve ex_net ex_host = Some (Inr ?app0)"
    by (simp add: main_startup_def ex_host_def startup_nick_def server_rows_def)
  have "distinct (map fst (host_servers ex_host))" by (simp add: ex_host_def)
  moreover have "app_step\<^sup>*\<^sup>* ?app0 (?app0\<lparr>message_edit_id := Some 3\<rparr>)"
    by (rule r_into_rtranclp) (rule app_step.start_edit)
  ultimately show ?thesis using reachable_app_ok [OF run] by blast
qed

end
