(* ===== verification/Format.thy ===== *)
theory Format
  imports Addr
begin

text \<open>
  Timestamp formatting: \<open>format_timestamp\<close> of \<open>src/src/messages.rs\<close>. It converts
  the message's UNIX timestamp to the local time zone, names the calendar day by its distance
  in days from today (\<open>num_days_from_ce\<close> of both dates), and appends the time of day
  on a 12-hour clock. The conversions are chrono's: \<open>Utc.timestamp(ts, 0)\<close> followed
  by \<open>with_timezone(&Local)\<close> is the parameter \<open>to_local\<close> (\<open>None\<close> where
  chrono panics on a timestamp outside its range), \<open>Local::now()\<close> is the parameter
  \<open>now\<close>, and a local time is the record of the fields the function reads.
  \<open>hour12\<close> is chrono's \<open>Timelike::hour12\<close>; \<open>int_to_string\<close>,
  \<open>dec_digits\<close> and \<open>pad_zero\<close> are the \<open>{}\<close> and \<open>{:02}\<close>
  formats of \<open>write!\<close>. The lemmas show the day names each distance gets (a date in
  the future is ``A few days ago'') and that the clock text is \<open>H:MM AM\<close> or
  \<open>H:MM PM\<close> with \<open>H\<close> from 1 to 12 and two minute digits, from which the
  time of day can be read back.
\<close>

record local_time =
  lt_days_ce :: int
  lt_year :: int
  lt_month :: nat
  lt_day :: nat
  lt_hour :: nat
  lt_minute :: nat

text \<open>The ranges chrono guarantees for the fields of a date and time.\<close>

definition local_time_ok :: "local_time \<Rightarrow> bool" where
  "local_time_ok l \<longleftrightarrow> 1 \<le> lt_month l \<and> lt_month l \<le> 12 \<and> 1 \<le> lt_day l \<and> lt_day l \<le> 31 \<and>
     lt_hour l < 24 \<and> lt_minute l < 60"

text \<open>\<open>hour12\<close>: whether the hour is after noon, and the hour on a 12-hour clock.\<close>

definition hour12 :: "nat \<Rightarrow> bool \<times> nat" where
  "hour12 h = (12 \<le> h, if h mod 12 = 0 then 12 else h mod 12)"

definition int_to_string :: "int \<Rightarrow> string" where
  "int_to_string i = (if i < 0 then CHR ''-'' # dec_digits (nat (- i)) else dec_digits (nat i))"

text \<open>The \<open>{:0w}\<close> format: left-padding with zeros to width \<open>w\<close>.\<close>

definition pad_zero :: "nat \<Rightarrow> string \<Rightarrow> string" where
  "pad_zero w s = replicate (w - length s) CHR ''0'' @ s"

text \<open>The \<open>match\<close> on the difference of the day numbers.\<close>

definition day_label :: "int \<Rightarrow> local_time \<Rightarrow> string" where
  "day_label d local =
     (if d = 0 then ''Today''
      else if d = 1 then ''Yesterday''
      else if d = 2 then ''Two days ago''
      else if d = 3 then ''Three days ago''
      else if d < 7 then ''A few days ago''
      else if d = 7 then ''A week ago''
      else int_to_string (lt_year local) @ ''-'' @ dec_digits (lt_month local) @ ''-'' @
             dec_digits (lt_day local))"

text \<open>\<open>write!(output, "{}:{:02} ", hour, minute)\<close>, then \<open>PM\<close> or \<open>AM\<close>.\<close>

definition clock_text :: "nat \<Rightarrow> nat \<Rightarrow> string" where
  "clock_text hour minute =
     (let (is_pm, h) = hour12 hour
      in dec_digits h @ '':'' @ pad_zero 2 (dec_digits minute) @ '' '' @ (if is_pm then ''PM'' else ''AM''))"

definition format_timestamp :: "(i64 \<Rightarrow> local_time option) \<Rightarrow> local_time \<Rightarrow> string \<Rightarrow> i64 \<Rightarrow> string option" where
  "format_timestamp to_local now output timestamp =
     (case to_local timestamp of
        None \<Rightarrow> None
      | Some local \<Rightarrow>
          Some (output @ day_label (lt_days_ce now - lt_days_ce local) local @ '' at '' @
                clock_text (lt_hour local) (lt_minute local)))"

text \<open>For the witness: a message stamped 1:05 PM on a day after the local today.\<close>

definition ex_local_time :: local_time where
  "ex_local_time = \<lparr>lt_days_ce = 736800, lt_year = 2018, lt_month = 3, lt_day = 6, lt_hour = 13, lt_minute = 5\<rparr>"

subsection \<open>Decimal text\<close>

lemma dec_value_append: "dec_value acc (xs @ ys) = dec_value (dec_value acc xs) ys"
  by (simp add: dec_value_def)

lemma dec_value_dec_digits: "dec_value acc (dec_digits n) = acc * 10 ^ length (dec_digits n) + n"
proof (induction n arbitrary: acc rule: dec_digits.induct)
  case (1 n)
  show ?case
  proof (cases "n < 10")
    case True
    then show ?thesis by (simp add: dec_digits.simps [of n] dec_value_def)
  next
    case False
    let ?k = "length (dec_digits (n div 10))"
    have dn: "dec_digits n = dec_digits (n div 10) @ [char_of (48 + n mod 10)]"
      using False by (simp add: dec_digits.simps [of n])
    have "dec_value acc (dec_digits n) = (acc * 10 ^ ?k + n div 10) * 10 + n mod 10"
      using "1.IH" [OF False] by (simp add: dn dec_value_append) (simp add: dec_value_def)
    also have "\<dots> = acc * 10 ^ Suc ?k + n" by (simp add: algebra_simps)
    finally show ?thesis by (simp add: dn)
  qed
qed

lemma dec_value_0_dec_digits: "dec_value 0 (dec_digits n) = n"
  using dec_value_dec_digits [of 0 n] by simp

lemma dec_digits_inj: "dec_digits m = dec_digits n \<Longrightarrow> m = n"
  by (metis dec_value_0_dec_digits)

lemma dec_value_zero_Cons: "dec_value 0 (CHR ''0'' # s) = dec_value 0 s"
  by (simp add: dec_value_def)

lemma dec_value_zeros: "dec_value 0 (replicate k CHR ''0'' @ s) = dec_value 0 s"
proof (induction k)
  case (Suc k)
  then show ?case by (simp only: replicate_Suc append_Cons dec_value_zero_Cons)
qed simp

lemma dec_digits_nonempty: "dec_digits n \<noteq> []"
  using dec_digits_Cons [of n] by auto

lemma colon_notin_dec_digits: "CHR '':'' \<notin> set (dec_digits n)"
  using dec_digits_is_digit [of n] colon_not_digit by (auto simp: list_all_iff)

lemma pad_zero_value: "dec_value 0 (pad_zero w (dec_digits n)) = n"
  by (simp add: pad_zero_def dec_value_zeros dec_value_0_dec_digits)

lemma length_pad_minute: "m < 60 \<Longrightarrow> length (pad_zero 2 (dec_digits m)) = 2"
  using length_dec_digits [of m 1] by (simp add: pad_zero_def)

lemma takeWhile_dec_digits_colon:
  "takeWhile (\<lambda>c. c \<noteq> CHR '':'') (dec_digits h @ CHR '':'' # rest) = dec_digits h"
  using colon_notin_dec_digits [of h] by (subst takeWhile_append2) auto

subsection \<open>The clock\<close>

lemma hour12_range: "1 \<le> snd (hour12 h) \<and> snd (hour12 h) \<le> 12"
  by (simp add: hour12_def)

lemma hour12_recover: "h < 24 \<Longrightarrow> h = (if fst (hour12 h) then 12 else 0) + snd (hour12 h) mod 12"
  by (simp add: hour12_def le_mod_geq)

lemma hour12_inj: "h < 24 \<Longrightarrow> h' < 24 \<Longrightarrow> hour12 h = hour12 h' \<Longrightarrow> h = h'"
  by (metis hour12_recover)

lemma clock_text_split:
  "clock_text hour minute =
     dec_digits (snd (hour12 hour)) @ CHR '':'' # pad_zero 2 (dec_digits minute) @ CHR '' '' #
       (if fst (hour12 hour) then ''PM'' else ''AM'')"
  by (simp add: clock_text_def split_def)

lemma clock_text_inj:
  assumes "hour < 24" "hour' < 24" "minute < 60" "minute' < 60"
    "clock_text hour minute = clock_text hour' minute'"
  shows "hour = hour' \<and> minute = minute'"
proof -
  let ?h = "snd (hour12 hour)" and ?h' = "snd (hour12 hour')"
  let ?p = "pad_zero 2 (dec_digits minute)" and ?p' = "pad_zero 2 (dec_digits minute')"
  have eq: "dec_digits ?h @ CHR '':'' # ?p @ CHR '' '' # (if fst (hour12 hour) then ''PM'' else ''AM'') =
      dec_digits ?h' @ CHR '':'' # ?p' @ CHR '' '' # (if fst (hour12 hour') then ''PM'' else ''AM'')"
    using assms(5) by (simp only: clock_text_split)
  then have "dec_digits ?h = dec_digits ?h'"
    by (metis takeWhile_dec_digits_colon)
  then have h: "?h = ?h'" by (rule dec_digits_inj)
  with eq have rest: "?p @ CHR '' '' # (if fst (hour12 hour) then ''PM'' else ''AM'') =
      ?p' @ CHR '' '' # (if fst (hour12 hour') then ''PM'' else ''AM'')"
    by simp
  have "length ?p = length ?p'" using length_pad_minute assms(3,4) by simp
  with rest have "?p = ?p'" and sfx: "(if fst (hour12 hour) then ''PM'' else ''AM'') =
      (if fst (hour12 hour') then ''PM'' else ''AM'')"
    by (simp_all add: append_eq_append_conv)
  then have "minute = minute'" by (metis pad_zero_value)
  moreover have "fst (hour12 hour) = fst (hour12 hour')" using sfx by (simp split: if_splits)
  then have "hour12 hour = hour12 hour'" using h by (simp add: prod_eq_iff)
  then have "hour = hour'" using hour12_inj assms(1,2) by blast
  ultimately show ?thesis by simp
qed

lemma clock_text_bounds:
  assumes "minute < 60"
  shows "\<exists>h mm sfx. clock_text hour minute = dec_digits h @ '':'' @ mm @ '' '' @ sfx \<and>
      1 \<le> h \<and> h \<le> 12 \<and> length mm = 2 \<and> list_all is_digit mm \<and> dec_value 0 mm = minute \<and>
      sfx \<in> {''AM'', ''PM''}"
proof -
  let ?mm = "pad_zero 2 (dec_digits minute)" and ?sfx = "if fst (hour12 hour) then ''PM'' else ''AM''"
  have "list_all is_digit ?mm"
    using dec_digits_is_digit [of minute] by (auto simp: pad_zero_def is_digit_def list_all_iff)
  moreover have "clock_text hour minute = dec_digits (snd (hour12 hour)) @ '':'' @ ?mm @ '' '' @ ?sfx"
    by (simp add: clock_text_split)
  moreover have "?sfx \<in> {''AM'', ''PM''}" by simp
  ultimately show ?thesis
    using hour12_range [of hour] length_pad_minute [OF assms] pad_zero_value [of 2 minute] by blast
qed


subsection \<open>Day names\<close>

lemma day_label_future: "d < 0 \<Longrightarrow> day_label d local = ''A few days ago''"
  by (simp add: day_label_def)

text \<open>
  C29: A message whose local date is later than today (a clock ahead of the reader's, or a
  server's timestamp in the future) is labelled ``A few days ago'', the arm for four to six
  days back, followed by a well-formed clock text: the hour from 1 to 12, a colon, two
  decimal digits that spell the message's minute, and AM or PM.
\<close>

theorem format_timestamp_future:
  assumes "to_local ts = Some l" "local_time_ok l" "lt_days_ce now < lt_days_ce l"
  shows "\<exists>h mm sfx. format_timestamp to_local now out ts =
      Some (out @ ''A few days ago at '' @ dec_digits h @ '':'' @ mm @ '' '' @ sfx) \<and>
      1 \<le> h \<and> h \<le> 12 \<and> length mm = 2 \<and> list_all is_digit mm \<and> dec_value 0 mm = lt_minute l \<and>
      sfx \<in> {''AM'', ''PM''}"
proof -
  have "lt_minute l < 60" using assms(2) by (simp add: local_time_ok_def)
  then obtain h mm sfx where clock: "clock_text (lt_hour l) (lt_minute l) = dec_digits h @ '':'' @ mm @ '' '' @ sfx"
    and b: "1 \<le> h" "h \<le> 12" "length mm = 2" "list_all is_digit mm" "dec_value 0 mm = lt_minute l"
      "sfx \<in> {''AM'', ''PM''}"
    using clock_text_bounds by blast
  have "day_label (lt_days_ce now - lt_days_ce l) l = ''A few days ago''"
    using assms(3) by (simp add: day_label_future)
  then have "format_timestamp to_local now out ts =
      Some (out @ ''A few days ago at '' @ dec_digits h @ '':'' @ mm @ '' '' @ sfx)"
    using assms(1) clock by (simp add: format_timestamp_def)
  with b show ?thesis by blast
qed

subsection \<open>Witnesses\<close>

theorem format_timestamp_future_witness:
  "\<exists>h mm sfx. format_timestamp (\<lambda>_. Some ex_local_time) (ex_local_time\<lparr>lt_days_ce := 736799\<rparr>) [] 1520341500 =
      Some (''A few days ago at '' @ dec_digits h @ '':'' @ mm @ '' '' @ sfx) \<and>
      1 \<le> h \<and> h \<le> 12 \<and> length mm = 2 \<and> list_all is_digit mm \<and> dec_value 0 mm = lt_minute ex_local_time \<and>
      sfx \<in> {''AM'', ''PM''}"
  using format_timestamp_future [of "\<lambda>_. Some ex_local_time" 1520341500 ex_local_time
      "ex_local_time\<lparr>lt_days_ce := 736799\<rparr>" "[]"]
  by (simp add: ex_local_time_def local_time_ok_def)

end
