(* ===== verification/Views.thy ===== *)
theory Views
  imports Complex_Main Client
begin

text \<open>
  The view state of \<open>main.rs\<close>: which page the main \<open>Stack\<close> shows (the chat, the
  server form, the channel form), which child the nickname \<open>user_stack\<close> shows, the
  texts of the form entries, the modes the channel form's two mode boxes hold, and whether
  the message-edit \<open>Revealer\<close> is open. The widget-only handlers of \<open>main\<close> are
  functions on this record; the handlers that also act on the registry or the database
  combine it with the handlers of \<open>Client\<close>. GTK runs the handlers connected to one
  signal in the order they were connected: \<open>emit\<close>. The mode boxes are drawn and read by
  \<open>render_mode\<close> and \<open>get_mode\<close> of \<open>functions.rs\<close>, which is not among the
  sources; a box is modelled by the mode \<open>get_mode\<close> reads from it (\<open>None\<close>: no mode
  can be read), and \<open>render_mode(box, m)\<close> by setting it to \<open>Some m\<close>. The
  theory also holds the two remaining decisions of \<open>main\<close> that only affect the
  display: keeping the message list scrolled to the bottom, and the choice and loading of
  the style sheet.
\<close>

unbundle bit_operations_syntax

datatype page = StackMain | StackEditServer | StackEditChannel

datatype user_page = UserStackText | UserStackEdit

record Views =
  stack_page :: page
  user_page :: user_page
  user_stack_edit :: string
  server_form :: "string \<times> string \<times> string"
  channel_form_name :: string
  mode_bots :: "nat option"
  mode_users :: "nat option"
  message_edit_revealed :: bool

text \<open>\<open>common::PERM_READ\<close> and \<open>common::PERM_WRITE\<close> of the synac library.\<close>

definition PERM_READ :: nat where
  "PERM_READ = 1"

definition PERM_WRITE :: nat where
  "PERM_WRITE = 2"

definition emit :: "('s \<Rightarrow> 's) list \<Rightarrow> 's \<Rightarrow> 's" where
  "emit handlers v = fold (\<lambda>h. h) handlers v"

text \<open>A click on the nickname label (\<open>user_stack_text.connect_button_press_event\<close>).\<close>

definition user_text_pressed :: "nat \<Rightarrow> string \<Rightarrow> Views \<Rightarrow> Views" where
  "user_text_pressed button nk v =
     (if button = 1 then v\<lparr>user_stack_edit := nk, user_page := UserStackEdit\<rparr> else v)"

definition user_edit_focus_out :: "Views \<Rightarrow> Views" where
  "user_edit_focus_out v = v\<lparr>user_page := UserStackText\<rparr>"

text \<open>The server list's \<open>Add...\<close> button.\<close>

definition server_add_clicked :: "Views \<Rightarrow> Views" where
  "server_add_clicked v = v\<lparr>server_form := ('''', '''', ''''), stack_page := StackEditServer\<rparr>"

text \<open>
  The channel list's \<open>Add...\<close> button has two handlers, connected in this order: the first
  clears the server form and shows the channel form, the second resets the channel form.
\<close>

definition channel_add_clear_server :: "Views \<Rightarrow> Views" where
  "channel_add_clear_server v = v\<lparr>server_form := ('''', '''', ''''), stack_page := StackEditChannel\<rparr>"

definition channel_add_reset :: "Views \<Rightarrow> Views" where
  "channel_add_reset v =
     v\<lparr>channel_form_name := '''', mode_bots := Some 0, mode_users := Some (PERM_READ OR PERM_WRITE),
       stack_page := StackEditChannel\<rparr>"

definition channel_add_clicked :: "Views \<Rightarrow> Views" where
  "channel_add_clicked = emit [channel_add_clear_server, channel_add_reset]"

text \<open>The Cancel buttons of the message editor and of the two forms.\<close>

definition message_edit_cancel :: "Views \<Rightarrow> Views" where
  "message_edit_cancel v = v\<lparr>message_edit_revealed := False\<rparr>"

definition form_cancel :: "Views \<Rightarrow> Views" where
  "form_cancel v = v\<lparr>stack_page := StackMain\<rparr>"

text \<open>
  The handlers that also change the application: the nickname entry shows the label again
  before \<open>change_nick\<close>; the server form's Ok returns to the chat only when the address
  parses, before the \<open>INSERT\<close>; the channel form's Ok returns to the chat first and then
  creates the channel from the form; the message editor closes after sending the edit.
\<close>

definition user_edit_activate :: "socket_addr list \<Rightarrow> (socket_addr \<Rightarrow> packet \<Rightarrow> Error option) \<Rightarrow>
    Views \<Rightarrow> App \<Rightarrow> (Views \<times> App \<times> ui_effect list) option" where
  "user_edit_activate order send v app =
     map_option (\<lambda>(app', effs). (v\<lparr>user_page := UserStackText\<rparr>, app', effs))
       (change_nick order send (user_stack_edit v) app)"

definition edit_server_ok :: "(string \<Rightarrow> u16 \<Rightarrow> socket_addr list option) \<Rightarrow> (socket_addr \<Rightarrow> string) \<Rightarrow>
    Views \<Rightarrow> App \<Rightarrow> (Views \<times> App \<times> ui_effect list) option" where
  "edit_server_ok resolve fmt v app =
     (let (name, server, hash) = server_form v
      in case parse_addr resolve server of
           None \<Rightarrow> Some (v, app, [])
         | Some _ \<Rightarrow> map_option (\<lambda>(app', effs). (v\<lparr>stack_page := StackMain\<rparr>, app', effs))
                       (add_server resolve fmt name server hash app))"

definition edit_channel_ok :: "(socket_addr \<Rightarrow> packet \<Rightarrow> Error option) \<Rightarrow>
    Views \<Rightarrow> App \<Rightarrow> (Views \<times> App \<times> ui_effect list) option" where
  "edit_channel_ok send v app =
     map_option (\<lambda>(app', effs). (v\<lparr>stack_page := StackMain\<rparr>, app', effs))
       (create_channel send (channel_form_name v) (mode_bots v) (mode_users v) app)"

definition message_edit_activate :: "(socket_addr \<Rightarrow> packet \<Rightarrow> Error option) \<Rightarrow> string \<Rightarrow>
    Views \<Rightarrow> App \<Rightarrow> (Views \<times> App \<times> ui_effect list) option" where
  "message_edit_activate send text v app =
     (if text = [] then Some (v, app, [])
      else map_option (\<lambda>(app', effs). (v\<lparr>message_edit_revealed := False\<rparr>, app', effs))
             (edit_message send text app))"

text \<open>
  Keeping the message list at the bottom (\<open>messages_scroll\<close>'s vertical adjustment,
  \<open>connect_changed\<close>): when the view is within 100 pixels of the bottom it is moved to
  the bottom. The adjustment's values are \<open>f64\<close>; they are real numbers here, without
  rounding.
\<close>

definition vadjustment_changed :: "real \<Rightarrow> real \<Rightarrow> real \<Rightarrow> real" where
  "vadjustment_changed value upper page_size =
     (let bottom = upper - page_size in if bottom \<le> value + 100 then bottom else value)"

text \<open>
  Loading the style sheet: with no default screen only an error is printed; otherwise the
  user's \<open>style.css\<close> from the configuration directories is loaded when there is one (a
  path that is not Unicode is \<open>UnicodePathError\<close>), else the built-in dark or light
  sheet after the GTK setting \<open>gtk-application-prefer-dark-theme\<close> (light when there are
  no settings). A failure raises an alert; the provider is installed in every case.
  \<open>config\<close> is what \<open>find_config_file\<close> and \<open>to_str\<close> return, \<open>load\<close> the
  error of \<open>load_from_path\<close> or \<open>load_from_data\<close>.
\<close>

datatype css_source = CssFile string | DarkCss | LightCss

datatype css_error = UnicodePathError | CssLoadError string

datatype css_effect = CssLog string | CssAlert string | CssProvider

definition css_error_text :: "css_error \<Rightarrow> string" where
  "css_error_text e =
     (case e of UnicodePathError \<Rightarrow> ''sadly GTK+ doesn't support unicode paths'' | CssLoadError s \<Rightarrow> s)"

definition css_choice :: "string option option \<Rightarrow> bool option \<Rightarrow> css_error + css_source" where
  "css_choice config prefer_dark =
     (case config of
        Some (Some path) \<Rightarrow> Inr (CssFile path)
      | Some None \<Rightarrow> Inl UnicodePathError
      | None \<Rightarrow> Inr (if prefer_dark = Some True then DarkCss else LightCss))"

definition load_css :: "bool \<Rightarrow> string option option \<Rightarrow> bool option \<Rightarrow> (css_source \<Rightarrow> string option) \<Rightarrow>
    css_effect list" where
  "load_css screen config prefer_dark load =
     (if \<not> screen then [CssLog ''error: no default screen'']
      else (case css_choice config prefer_dark of
              Inl e \<Rightarrow> [CssAlert (css_error_text e), CssProvider]
            | Inr src \<Rightarrow> (case load src of
                           None \<Rightarrow> [CssProvider]
                         | Some err \<Rightarrow> [CssAlert (css_error_text (CssLoadError err)), CssProvider])))"

subsection \<open>Lemmas\<close>

lemma emit_Cons [simp]: "emit (h # hs) v = emit hs (h v)"
  by (simp add: emit_def)

lemma emit_Nil [simp]: "emit [] v = v"
  by (simp add: emit_def)

text \<open>
  The channel list's \<open>Add...\<close> button opens the channel form reset to an empty name, no
  permissions for bots and read and write for users, and also clears the server form, which
  is the first handler connected to it.
\<close>

theorem channel_add_clicked_effect:
  "channel_add_clicked v =
     v\<lparr>server_form := ('''', '''', ''''), stack_page := StackEditChannel, channel_form_name := '''',
       mode_bots := Some 0, mode_users := Some 3\<rparr>"
  by (simp add: channel_add_clicked_def channel_add_clear_server_def channel_add_reset_def
      PERM_READ_def PERM_WRITE_def)

text \<open>
  Opening the nickname editor and pressing Enter on the unchanged name sends nothing,
  leaves the application as it was and shows the label again.
\<close>

theorem nick_edit_unchanged:
  "user_edit_activate order send (user_text_pressed 1 (nick (app_connections app)) v) app =
     Some (v\<lparr>user_stack_edit := nick (app_connections app), user_page := UserStackText\<rparr>, app, [])"
  by (simp add: user_edit_activate_def user_text_pressed_def change_nick_def)

text \<open>
  The server form's Ok button with a server text that does not parse changes nothing: the
  form stays open with its texts.
\<close>

theorem edit_server_ok_unparsable:
  assumes "parse_addr resolve (fst (snd (server_form v))) = None"
  shows "edit_server_ok resolve fmt v app = Some (v, app, [])"
  using assms by (simp add: edit_server_ok_def split_def)

text \<open>
  Cancelling a form returns to the chat page and keeps the form's texts, so the channel form
  opened again by its \<open>Add...\<close> button starts from the reset values.
\<close>

theorem form_cancel_reopen:
  "stack_page (form_cancel v) = StackMain \<and> server_form (form_cancel v) = server_form v \<and>
   channel_add_clicked (form_cancel v) = channel_add_clicked v"
  by (simp add: form_cancel_def channel_add_clicked_def channel_add_clear_server_def channel_add_reset_def)


text \<open>
  The message list sticks to the bottom: a view within 100 pixels of the bottom is moved
  there, any other view is left where it is, and a second change event changes nothing.
\<close>

theorem vadjustment_sticks:
  "vadjustment_changed value upper page_size =
     (if upper - page_size - 100 \<le> value then upper - page_size else value) \<and>
   vadjustment_changed (vadjustment_changed value upper page_size) upper page_size =
     vadjustment_changed value upper page_size"
  by (simp add: vadjustment_changed_def Let_def)

text \<open>
  With a screen the style provider is always installed, after at most one alert; the user's
  \<open>style.css\<close> takes precedence over the theme, and without it the dark sheet is used
  exactly when the GTK settings prefer a dark theme.
\<close>

theorem load_css_provider:
  "screen \<Longrightarrow> last (load_css screen config prefer_dark load) = CssProvider \<and>
     length (load_css screen config prefer_dark load) \<le> 2"
  by (simp add: load_css_def split: sum.splits option.splits)

theorem css_choice_precedence:
  "css_choice (Some (Some path)) prefer_dark = Inr (CssFile path) \<and>
   css_choice None prefer_dark = Inr (if prefer_dark = Some True then DarkCss else LightCss)"
  by (simp add: css_choice_def)

end
