(* ===== verification/Messages_Seq.thy ===== *)
theory Messages_Seq
  imports Messages "HOL-Library.Multiset"
begin

text \<open>
  Properties of the message store of \<open>src/src/messages.rs\<close> over several operations. A
  sequence of \<open>Messages::add\<close> calls with distinct ids builds, in each channel, the
  stable sort of that channel's messages by timestamp (\<open>sort_key\<close> of the library, whose
  characterisation \<open>properties_for_sort_key\<close> is in \<open>Multiset\<close>): messages with equal
  timestamps keep the order in which they arrived, as the spec's property tests demand. And
  \<open>Messages::remove\<close> undoes \<open>Messages::add\<close> of a new message, except that the channel's
  entry created by \<open>entry(..).or_insert_with\<close> stays, empty, in the map.
\<close>

text \<open>For the witnesses: two messages of channel 5 with the same timestamp.\<close>

definition ex_msg1 :: message where
  "ex_msg1 = \<lparr>msg_author = 2, msg_channel = 5, msg_id = 3, msg_text = ''hi'', msg_timestamp = 100,
     msg_timestamp_edit = None\<rparr>"

definition ex_msg2 :: message where
  "ex_msg2 = ex_msg1\<lparr>msg_id := 4, msg_text := ''there''\<rparr>"

subsection \<open>Stable sorting by key\<close>

lemma filter_le_key:
  "filter (\<lambda>y. f y \<le> c \<and> v = f y) zs = (if v \<le> c then filter (\<lambda>y. v = f y) zs else [])"
  by (induction zs) auto

lemma filter_gt_key:
  "filter (\<lambda>y. c < f y \<and> v = f y) zs = (if c < v then filter (\<lambda>y. v = f y) zs else [])"
  by (induction zs) auto

lemma sort_key_snoc:
  fixes f :: "'a \<Rightarrow> 'k::linorder"
  shows "sort_key f (ys @ [x]) =
    filter (\<lambda>y. f y \<le> f x) (sort_key f ys) @ x # filter (\<lambda>y. f x < f y) (sort_key f ys)"
proof (rule properties_for_sort_key)
  let ?zs = "sort_key f ys"
  have "filter (\<lambda>y. f x < f y) ?zs = filter (\<lambda>y. \<not> f y \<le> f x) ?zs" by (simp add: not_le)
  then show "mset (filter (\<lambda>y. f y \<le> f x) ?zs @ x # filter (\<lambda>y. f x < f y) ?zs) = mset (ys @ [x])"
    using multiset_partition [of "mset ?zs" "\<lambda>y. f y \<le> f x"] by (simp add: add.commute)
  have "sorted (map f ?zs)" by simp
  then show "sorted (map f (filter (\<lambda>y. f y \<le> f x) ?zs @ x # filter (\<lambda>y. f x < f y) ?zs))"
    by (auto simp: sorted_append sorted_filter intro: order.strict_implies_order)
  fix k
  have stable: "filter (\<lambda>y. f k = f y) ?zs = filter (\<lambda>y. f k = f y) ys"
    using sort_key_stable [of f "f k" ys] by (simp add: eq_commute)
  show "filter (\<lambda>y. f k = f y) (filter (\<lambda>y. f y \<le> f x) ?zs @ x # filter (\<lambda>y. f x < f y) ?zs) =
      filter (\<lambda>y. f k = f y) (ys @ [x])"
    using stable by (cases "f k \<le> f x") (auto simp: filter_le_key filter_gt_key)
qed

lemma position_after_absent:
  "\<forall>x\<in>set xs. \<not> P x \<Longrightarrow> P y \<Longrightarrow> position P (xs @ y # zs) = Some (length xs)"
  by (induction xs) auto

subsection \<open>A sequence of adds sorts each channel stably\<close>

text \<open>
  C39: Feeding messages with distinct ids one by one to \<open>Messages::add\<close>, starting from
  \<open>Messages::new\<close>, never panics and leaves the store well-formed, and each channel's
  timeline is exactly that channel's messages stably sorted by timestamp: ordered by
  timestamp, and in arrival order among equal timestamps.
\<close>

theorem messages_add_stable_sort:
  assumes "distinct (map msg_id ms)"
  shows "\<exists>st. fold (\<lambda>m r. Option.bind r (messages_add m)) ms (Some Messages_new) = Some st \<and>
    messages_inv st \<and>
    (\<forall>c. messages_get c st = sort_key msg_timestamp (filter (\<lambda>m. msg_channel m = c) ms))"
  using assms
proof (induction ms rule: rev_induct)
  case Nil
  show ?case by (simp add: messages_inv_new) (simp add: Messages_new_def messages_get_def)
next
  case (snoc m ms)
  then have "distinct (map msg_id ms)" and fresh_ms: "msg_id m \<notin> msg_id ` set ms" by auto
  with snoc.IH obtain st where
    st: "fold (\<lambda>m r. Option.bind r (messages_add m)) ms (Some Messages_new) = Some st"
      "messages_inv st"
      "\<forall>c. messages_get c st = sort_key msg_timestamp (filter (\<lambda>m. msg_channel m = c) ms)"
    by blast
  let ?c = "msg_channel m"
  let ?xs = "messages_get ?c st"
  have xs: "?xs = sort_key msg_timestamp (filter (\<lambda>x. msg_channel x = ?c) ms)"
    using st(3) by blast
  then have "msg_id m \<notin> msg_id ` set ?xs" using fresh_ms by auto
  then have split: "upsert_ref m ?xs =
      filter (\<lambda>x. msg_timestamp x \<le> msg_timestamp m) ?xs @ m #
      filter (\<lambda>x. msg_timestamp m < msg_timestamp x) ?xs"
    by (rule upsert_ref_fresh_split [OF messages_inv_sorted [OF st(2)]])
  define st' where "st' = st\<lparr>messages := (messages st)(?c \<mapsto> upsert_ref m ?xs)\<rparr>"
  have add: "messages_add m st = Some st'"
    using messages_add_Some_iff [OF st(2)] by (simp add: st'_def)
  have "messages_get c st' = sort_key msg_timestamp (filter (\<lambda>x. msg_channel x = c) (ms @ [m]))" for c
  proof (cases "c = ?c")
    case True
    then show ?thesis using split xs by (simp add: st'_def sort_key_snoc)
  next
    case False
    then show ?thesis using st(3) by (simp add: st'_def)
  qed
  moreover have "messages_inv st'"
    unfolding st'_def by (rule messages_inv_upsert [OF st(2)])
  ultimately show ?case using st(1) add by simp
qed

subsection \<open>Removing a message undoes adding it\<close>

text \<open>
  C33: Adding a message whose id is in no timeline of a well-formed store, then removing
  that id (its channel being among the keys the removal visits), succeeds, reports the
  message's channel, and gives back every timeline as it was; but the channel's entry
  stays in the map (empty if the channel had no messages before), so \<open>has\<close> reports it.
\<close>

theorem messages_add_remove_roundtrip:
  assumes "messages_inv ms" "\<forall>c. msg_id m \<notin> msg_id ` set (messages_get c ms)"
    "msg_channel m \<in> set order"
  shows "\<exists>ms1 ms2. messages_add m ms = Some ms1 \<and>
    messages_remove order (msg_id m) ms1 = Some (ms2, Some (msg_channel m)) \<and>
    (\<forall>c. messages_get c ms2 = messages_get c ms) \<and> messages_has (msg_channel m) ms2"
proof -
  let ?c = "msg_channel m"
  define xs where "xs = messages_get ?c ms"
  define hi where "hi = length (filter (\<lambda>x. msg_timestamp x \<le> msg_timestamp m) xs)"
  define ys where "ys = take hi xs @ m # drop hi xs"
  have fresh: "msg_id m \<notin> msg_id ` set xs" using assms(2) by (simp add: xs_def)
  have hi_le: "hi \<le> length xs" by (simp add: hi_def)
  define ms1 where "ms1 = ms\<lparr>messages := (messages ms)(?c \<mapsto> ys)\<rparr>"
  have add: "messages_add m ms = Some ms1"
    using messages_add_Some_iff [OF assms(1)] upsert_ref_fresh [OF fresh]
    by (simp add: ms1_def ys_def hi_def xs_def)
  have "\<forall>x\<in>set (take hi xs). msg_id x \<noteq> msg_id m"
    using fresh by (metis image_eqI in_set_takeD)
  then have pos: "position (\<lambda>x. msg_id x = msg_id m) ys = Some hi"
    using position_after_absent [of "take hi xs" "\<lambda>x. msg_id x = msg_id m" m] hi_le
    by (simp add: ys_def)
  have others: "\<forall>c'\<in>set order. c' \<noteq> ?c \<longrightarrow>
      (\<forall>zs. messages ms1 c' = Some zs \<longrightarrow> msg_id m \<notin> msg_id ` set zs)"
  proof (intro ballI impI allI)
    fix c' zs assume "c' \<noteq> ?c" "messages ms1 c' = Some zs"
    then have "messages_get c' ms = zs" by (simp add: ms1_def messages_get_def)
    then show "msg_id m \<notin> msg_id ` set zs" using assms(2) by blast
  qed
  have "remove_from (msg_id m) (messages ms1) order =
      Some ((messages ms1)(?c \<mapsto> take hi ys @ drop (Suc hi) ys), Some ?c)"
    by (rule remove_from_found [OF _ pos assms(3) others]) (simp add: ms1_def)
  moreover have "take hi ys @ drop (Suc hi) ys = xs" using hi_le by (simp add: ys_def)
  ultimately have "messages_remove order (msg_id m) ms1 =
      Some (ms\<lparr>messages := (messages ms)(?c \<mapsto> xs)\<rparr>, Some ?c)"
    by (simp add: messages_remove_def ms1_def)
  moreover have "messages_get c (ms\<lparr>messages := (messages ms)(?c \<mapsto> xs)\<rparr>) = messages_get c ms" for c
    by (simp add: xs_def)
  moreover have "messages_has ?c (ms\<lparr>messages := (messages ms)(?c \<mapsto> xs)\<rparr>)"
    by (simp add: messages_has_def)
  ultimately show ?thesis using add by blast
qed

theorem messages_add_stable_sort_witness:
  "\<exists>st. fold (\<lambda>m r. Option.bind r (messages_add m)) [ex_msg1, ex_msg2] (Some Messages_new) = Some st \<and>
     messages_get 5 st = [ex_msg1, ex_msg2]"
proof -
  have "distinct (map msg_id [ex_msg1, ex_msg2])" by (simp add: ex_msg2_def ex_msg1_def)
  then obtain st where
    "fold (\<lambda>m r. Option.bind r (messages_add m)) [ex_msg1, ex_msg2] (Some Messages_new) = Some st"
    "messages_get 5 st = sort_key msg_timestamp (filter (\<lambda>m. msg_channel m = 5) [ex_msg1, ex_msg2])"
    using messages_add_stable_sort [of "[ex_msg1, ex_msg2]"] by blast
  moreover have "sort_key msg_timestamp (filter (\<lambda>m. msg_channel m = 5) [ex_msg1, ex_msg2]) =
      [ex_msg1, ex_msg2]"
    by (simp add: ex_msg2_def ex_msg1_def)
  ultimately show ?thesis by auto
qed

theorem messages_add_remove_roundtrip_witness:
  "\<exists>ms1 ms2. messages_add ex_msg1 Messages_new = Some ms1 \<and>
     messages_remove [5] 3 ms1 = Some (ms2, Some 5) \<and>
     (\<forall>c. messages_get c ms2 = []) \<and> messages_has 5 ms2"
proof -
  have "\<forall>c. msg_id ex_msg1 \<notin> msg_id ` set (messages_get c Messages_new)"
    by (simp add: messages_get_def Messages_new_def)
  moreover have "msg_channel ex_msg1 \<in> set [5]" by (simp add: ex_msg1_def)
  ultimately show ?thesis
    using messages_add_remove_roundtrip [OF messages_inv_new, of ex_msg1 "[5]"]
    by (simp add: ex_msg1_def messages_get_def Messages_new_def)
qed

end
