(* ===== verification/Label.thy ===== *)
theory Label
  imports Client
begin

text \<open>
  The typing notice end to end, across three components: the listener's read of a
  \<open>TypingReceive\<close> packet in \<open>Connections::try_read\<close> (\<open>connections.rs\<close>), its
  dispatch to \<open>Typing::insert\<close> unless the author is the session's own user, and the
  idle tick of \<open>main.rs\<close> that reads the selected session's tracker with
  \<open>Typing::check\<close> and sets the label. The sessions that have nothing to read are passed
  over without effect; the lemma \<open>poll_loop_quiet_prefix\<close> says so for any run of them.
\<close>

subsection \<open>Example values\<close>

text \<open>
  For the witness: the registry of \<open>Client\<close> whose selected session has learnt, from a
  \<open>UserReceive\<close>, that user 2 is called alice, and a listener that reads a typing notice
  of user 2 in channel 5 on that session only.
\<close>

definition ex_named_session :: Synac where
  "ex_named_session = ex_session\<lparr>state := State_update (UserReceive 2 ''alice'') (state ex_session)\<rparr>"

definition ex_named_app :: App where
  "ex_named_app = ex_app\<lparr>app_connections :=
     (app_connections ex_app)\<lparr>servers := [ex_addr \<mapsto> Connected (Inr ex_named_session)]\<rparr>\<rparr>"

definition ex_typing_rd :: "socket_addr \<Rightarrow> Error + packet option" where
  "ex_typing_rd b = (if b = ex_addr then Inr (Some (TypingReceive 2 5)) else Inr None)"

subsection \<open>Polling quiet sessions\<close>

lemma poll_loop_quiet_prefix:
  assumes "\<forall>b\<in>set xs. rd b = Inr None \<and> (\<forall>c. m b = Some c \<longrightarrow> conn_result c \<noteq> None)"
  shows "\<exists>m'. poll_loop now mord rd cb xs m outs = Some (m', outs, Inr ()) \<and>
    (\<forall>b. b \<notin> set xs \<longrightarrow> m' b = m b)"
  using assms
proof (induction xs arbitrary: m)
  case Nil
  then show ?case by simp
next
  case (Cons b xs)
  have rdb: "rd b = Inr None" using Cons.prems by simp
  show ?case
  proof (cases "m b")
    case None
    then obtain m' where "poll_loop now mord rd cb xs m outs = Some (m', outs, Inr ())"
      "\<forall>b'. b' \<notin> set xs \<longrightarrow> m' b' = m b'"
      using Cons.IH [of m] Cons.prems by auto
    with None show ?thesis by auto
  next
    case (Some c)
    then obtain r where cr: "conn_result c = Some r" using Cons.prems by auto
    define m1 where "m1 = m(b \<mapsto> Connected r)"
    have step: "poll_loop now mord rd cb (b # xs) m outs = poll_loop now mord rd cb xs m1 outs"
      using Some rdb Connection_join_result [OF cr] by (cases r) (simp_all add: m1_def)
    have "\<forall>b'\<in>set xs. rd b' = Inr None \<and> (\<forall>c. m1 b' = Some c \<longrightarrow> conn_result c \<noteq> None)"
      using Cons.prems by (auto simp: m1_def conn_result_Connected)
    then obtain m' where "poll_loop now mord rd cb xs m1 outs = Some (m', outs, Inr ())"
      "\<forall>b'. b' \<notin> set xs \<longrightarrow> m' b' = m1 b'"
      using Cons.IH by blast
    with step show ?thesis by (auto simp: m1_def)
  qed
qed

subsection \<open>The tracker after one notice\<close>

lemma typing_check_insert_sole:
  assumes "set (typing_live now (Some c) t) \<subseteq> {u}" "users st u = Some nm"
  shows "typing_check now (Some c) st (typing_insert now u c t) = Some (nm @ '' is typing...'')"
proof -
  have "filter (\<lambda>x. x \<noteq> u) (typing_live now (Some c) t) = []"
    using assms(1) by (auto simp: filter_empty_conv)
  then show ?thesis using assms(2)
    by (simp add: typing_check_def typing_live_insert TYPING_TIMEOUT_def typing_summary_def
        List.map_filter_simps)
qed

lemma tick_render_typing:
  "tick_render (List.map_filter id [tick_event cur s (TypingReceive u c) ch]) = []"
  by (simp add: tick_event_def tick_render_def channel_packet_def message_packet_def List.map_filter_simps)

subsection \<open>The label follows a notice\<close>

text \<open>
  C31: In a well-formed registry whose selected session views channel \<open>ch\<close>, when that
  session's listener delivers a \<open>TypingReceive\<close> from another user \<open>u\<close> whose name is
  known, every other session has nothing to read, and nobody else is typing there, the
  idle tick never panics, emits exactly the label ``\<open>name\<close> is typing...'' and stores it:
  the notice goes through \<open>try_read\<close>, \<open>Typing::insert\<close> and \<open>Typing::check\<close> in
  the same tick.
\<close>

theorem idle_tick_typing_label:
  assumes "registry_inv (app_connections app)" "distinct order" "a \<in> set order"
    "current_server (app_connections app) = Some a"
    "servers (app_connections app) a = Some (Connected (Inr s))" "current_channel s = Some ch"
    "rd a = Inr (Some (TypingReceive u ch))" "\<forall>b. b \<noteq> a \<longrightarrow> rd b = Inr None"
    "u \<noteq> user s" "users (state s) u = Some nm"
    "set (typing_live now (Some ch) (synac_typing s)) \<subseteq> {u}"
  shows "\<exists>app'. idle_tick False now mord rd order app = Some (app', [SetTypingLabel (nm @ '' is typing...'')]) \<and>
    typing_label app' = nm @ '' is typing...''"
proof -
  let ?cs = "app_connections app"
  let ?m = "servers ?cs"
  let ?p = "TypingReceive u ch"
  obtain xs ys where order: "order = xs @ a # ys" using split_list [OF assms(3)] by blast
  with assms(2) have a_out: "a \<notin> set xs" "a \<notin> set ys" and disj: "set xs \<inter> set ys = {}" by auto
  have live: "\<forall>b c. ?m b = Some c \<longrightarrow> conn_result c \<noteq> None"
    using registry_inv_no_panic [OF assms(1)] .
  obtain m1 where p1: "poll_loop now mord rd (tick_event (Some a)) xs ?m [] = Some (m1, [], Inr ())"
    and fr1: "\<forall>b. b \<notin> set xs \<longrightarrow> m1 b = ?m b"
    using poll_loop_quiet_prefix [of xs rd ?m] live assms(8) a_out(1) by fastforce
  have m1a: "m1 a = Some (Connected (Inr s))" using fr1 a_out(1) assms(5) by metis
  define s' where "s' = s\<lparr>synac_typing := typing_insert now u ch (synac_typing s)\<rparr>"
  define ev where "ev = tick_event (Some a) s' ?p (Some ch)"
  define m2 where "m2 = m1(a \<mapsto> Connected (Inr s'))"
  have "dispatch now (mord a) ?p s = Some (s', Some ch)"
    using assms(9) by (simp add: dispatch_def s'_def)
  then have p2: "poll_loop now mord rd (tick_event (Some a)) (a # ys) m1 [] =
      poll_loop now mord rd (tick_event (Some a)) ys m2 [ev]"
    using m1a assms(7) by (simp add: Connection_join_result conn_result_Connected m2_def ev_def)
  have "\<forall>b\<in>set ys. rd b = Inr None \<and> (\<forall>c. m2 b = Some c \<longrightarrow> conn_result c \<noteq> None)"
  proof
    fix b assume b: "b \<in> set ys"
    then have "b \<noteq> a" "b \<notin> set xs" using a_out(2) disj by auto
    then have "m2 b = ?m b" using fr1 by (simp add: m2_def del: split_paired_All)
    then show "rd b = Inr None \<and> (\<forall>c. m2 b = Some c \<longrightarrow> conn_result c \<noteq> None)"
      using assms(8) live \<open>b \<noteq> a\<close> by (simp del: split_paired_All)
  qed
  then obtain m3 where p3: "poll_loop now mord rd (tick_event (Some a)) ys m2 [ev] = Some (m3, [ev], Inr ())"
    and fr3: "\<forall>b. b \<notin> set ys \<longrightarrow> m3 b = m2 b"
    using poll_loop_quiet_prefix by blast
  have tr: "try_read False now mord rd (tick_event (Some a)) order ?cs = Some (?cs\<lparr>servers := m3\<rparr>, [ev], Inr ())"
    using p1 p2 p3 by (simp add: try_read_def order poll_loop_append)
  have m3a: "m3 a = Some (Connected (Inr s'))" using fr3 a_out(2) by (simp add: m2_def del: split_paired_All)
  have lbl: "typing_check now (current_channel s') (state s') (synac_typing s') = Some (nm @ '' is typing...'')"
    using typing_check_insert_sole [OF assms(11,10)] assms(6) by (simp add: s'_def)
  have "execute a (\<lambda>s. Some (s, typing_check now (current_channel s) (state s) (synac_typing s))) (\<lambda>_. None)
      (?cs\<lparr>servers := m3\<rparr>) =
      Some (?cs\<lparr>servers := m3(a \<mapsto> Connected (Inr s'))\<rparr>, Some (Some (nm @ '' is typing...'')))"
    using m3a lbl by (simp add: execute_def Connection_join_result conn_result_Connected)
  then show ?thesis
    using tr assms(4) tick_render_typing [of "Some a" s' u ch "Some ch"]
    by (simp add: idle_tick_def ev_def)
qed

theorem idle_tick_typing_label_witness:
  "\<exists>app'. idle_tick False 0 (\<lambda>_. []) ex_typing_rd [ex_addr] ex_named_app =
     Some (app', [SetTypingLabel ''alice is typing...'']) \<and> typing_label app' = ''alice is typing...''"
proof -
  have ok: "synac_ok ex_named_session"
    by (simp add: synac_ok_def ex_named_session_def ex_session_def messages_inv_def timeline_ok_def
        ex_message_def ex_synac_def Synac_new_def typing_inv_new)
  have "registry_inv (app_connections ex_named_app)"
    using ok by (simp add: ex_named_app_def registry_inv_def map_ok_def)
  moreover have "current_server (app_connections ex_named_app) = Some ex_addr"
    "servers (app_connections ex_named_app) ex_addr = Some (Connected (Inr ex_named_session))"
    by (simp_all add: ex_named_app_def)
  moreover have "current_channel ex_named_session = Some 5" "user ex_named_session = 1"
    "users (state ex_named_session) 2 = Some ''alice''"
    "typing_live 0 (Some 5) (synac_typing ex_named_session) = []"
    by (simp_all add: ex_named_session_def ex_session_def ex_synac_def Synac_new_def State_new_def
        typing_live_def Typing_new_def)
  moreover have "ex_typing_rd ex_addr = Inr (Some (TypingReceive 2 5))"
    "\<forall>b. b \<noteq> ex_addr \<longrightarrow> ex_typing_rd b = Inr None"
    by (simp_all add: ex_typing_rd_def del: split_paired_All)
  ultimately show ?thesis
    using idle_tick_typing_label [of ex_named_app "[ex_addr]" ex_addr ex_named_session 5 ex_typing_rd 2
        "''alice''" 0 "\<lambda>_. []"]
    by simp
qed

end
