(* ===== verification/Spec2Isabelle.thy ===== *)
theory Spec2Isabelle
  imports Run Format Views Messages_Seq Label
begin

text \<open>
  A verification library for the session core of the synac GTK client
  (\<open>src/src/messages.rs\<close>, \<open>src/src/connections.rs\<close>, \<open>src/src/main.rs\<close>).

  \<^bold>\<open>The program.\<close> The client keeps one authenticated session per chat server. Each
  session (\<open>Synac\<close> in \<open>connections.rs\<close>) owns a message store (\<open>Messages\<close>
  in \<open>messages.rs\<close>), a typing tracker (\<open>Typing\<close>, in \<open>typing.rs\<close>, which is
  not among the sources), a mirror of the server's state and the selected channel. The
  registry \<open>Connections\<close> maps each server address to a \<open>Connection\<close>, either a
  background dial in flight or its result; it dials the saved servers at start-up
  (\<open>Connections::new\<close>, \<open>connect\<close>), runs callbacks against one or every session
  (\<open>execute\<close>, \<open>foreach\<close>) and, from the GTK idle loop of \<open>main.rs\<close>, reads one
  packet per session and dispatches it to the store and the tracker (\<open>try_read\<close>). The
  handlers of \<open>main.rs\<close> act on the selected server through \<open>execute\<close>.

  \<^bold>\<open>Theories\<close>, in import order.
  \<^item> \<open>Prelude\<close>: the standard-library operations the code calls on slices and vectors
    (\<open>get\<close>, \<open>insert\<close>, \<open>remove\<close>, \<open>position\<close>, \<open>binary_search_by_key\<close> as
    the standard library's halving loop \<open>bsearch_loop\<close>), panics as \<open>None\<close>, and the
    shared lemmas on them and on sorted lists. C7 shows the binary search returns a
    matching index or the insertion point.
  \<^item> \<open>Protocol\<close>: the boundary of the \<open>synac\<close> library (message record, packets,
    error codes, constants, the mirrored \<open>State\<close>), modelled from the spec.
  \<^item> \<open>Messages\<close>: \<open>Messages::add/remove/get/has\<close>; a timeline is a list, the map
    from channels a partial function, the hash map's iteration order in \<open>remove\<close> an
    explicit parameter. \<open>upsert_ref\<close> is the reference behaviour of \<open>add\<close> in terms
    of counts; \<open>add_fwd_loop\<close> is the forward \<open>loop\<close> of \<open>add\<close> as the code
    writes it, with no bound, as a \<open>while_option\<close>. C1--C6, C8: the store stays sorted
    and per-channel, \<open>add\<close> refines \<open>upsert_ref\<close>, re-delivery, ties, removal
    present and absent. C14: the unbounded loop terminates, at the slot \<open>scan_fwd\<close>
    computes.
  \<^item> \<open>Typing\<close>: the tracker, modelled from the spec with an explicit clock in seconds.
  \<^item> \<open>Addr\<close>: \<open>parse_addr\<close> with \<open>rsplitn\<close> and the \<open>u16\<close> parser (its digit
    loop with overflow checks), the decimal printing of ports, and the reference reading
    \<open>dec_value\<close>; name resolution is the parameter \<open>resolve\<close>. C34--C38: splitting,
    default port, rejected ports, the print/parse round trip with its bound of five digits,
    and equivalence of the checked loop with the reference; a lemma records how IPv6
    literals are read (split at their last colon).
  \<^item> \<open>Dial\<close>: \<open>Synac\<close>, \<open>Session\<close>, the errors, and \<open>Connections::connect\<close>
    as \<open>login_token\<close>, \<open>login_password\<close> and \<open>connect\<close>. What every transport
    call returns is an input (\<open>Transport\<close>); the dial returns its result (\<open>None\<close>:
    a panic) and its effects in order (packets sent, password asked, token stored).
    C9--C13: token success, fallback on "unknown user"/"invalid login", the token write
    (once, after the password, the issued token), no credential, and invalid packets.
  \<^item> \<open>Connections\<close>: \<open>Connection\<close>, \<open>Connection::join\<close>, the registry record and
    \<open>new\<close> (\<open>spawn_rows\<close>), \<open>insert\<close>, \<open>remove\<close>, \<open>set_current\<close>,
    \<open>execute\<close>, \<open>foreach\<close> (\<open>foreach_loop\<close>) and \<open>try_read\<close> (\<open>poll_loop\<close>
    and \<open>dispatch\<close>). A join handle carries its thread's outcome, so \<open>join\<close> is a
    function; a failed \<open>try_lock\<close> is the input \<open>locked\<close>, what each non-blocking
    read returns is the input \<open>rd\<close>, the hash maps' iteration orders are inputs. The
    lifecycle of one connection is the inductive relation \<open>conn_step\<close>; the registry's
    operations are \<open>inplace_step\<close> and \<open>reg_step\<close>, and reachability is their
    reflexive transitive closure. C15--C24: the registry invariant holds in every
    reachable state (rule induction), polling never panics, a resolved connection stays
    resolved with its outcome, dispatch, read errors, joining of pending dials, the idle
    cases, \<open>foreach\<close>, the start-up registry and typing notifications.
  \<^item> \<open>Client\<close>: the application state \<open>App\<close> (registry, the \<open>servers\<close> table,
    the message being edited, the typing label and the last typing notification) and the
    handlers \<open>change_nick\<close>, \<open>load_more\<close>, \<open>edit_message\<close>,
    \<open>notify_typing\<close>, \<open>send_message\<close> (with \<open>reconnect_after\<close>),
    \<open>add_server\<close>, \<open>create_channel\<close> and the idle tick \<open>idle_tick\<close>; each maps its
    inputs to the new state and its effects (\<open>ui_effect\<close>), \<open>None\<close> being a panic.
    C25--C28, C30: reconnection after a failed send, the stale typing label, the
    duplicate server panic, throttling of typing notifications, and nickname broadcast.
  \<^item> \<open>Run\<close>: the application as a state machine. \<open>app_step\<close> is one event of
    the main loop on \<open>App\<close>: any handler above, the idle tick, and the three changes
    the rendering code of \<open>functions.rs\<close> makes through the sources' interfaces
    (\<open>set_current\<close>, \<open>insert\<close> of a logged-in session, starting an edit).
    \<open>app_ok\<close> is the state's well-formedness: the registry invariant and the primary
    key \<open>ip\<close> of the \<open>servers\<close> table. Its lemmas show that every state reachable
    from a successful start-up is well-formed; each handler's callback returns its session
    unchanged, which \<open>execute_keeps\<close> and \<open>foreach_loop_keeps\<close> reduce to the
    registry's own invariant lemmas.
  \<^item> \<open>Views\<close>: the view state of \<open>main\<close> (the page of the main stack, the
    nickname stack, the form entries, the channel form's mode boxes, the message editor's
    revealer) and the handlers that only switch it, with signal emission running the
    handlers of one signal in connection order (\<open>emit\<close>); the Ok and activate handlers
    combine it with the \<open>Client\<close> handlers. Its lemmas show that the channel list's
    \<open>Add...\<close> button also clears the server form (two handlers are connected to it),
    that confirming an unchanged nickname does nothing, and that an unparsable server
    keeps the form open. It also holds the scroll-to-bottom adjustment (\<open>f64\<close> as
    \<open>real\<close>) and the choice and loading of the style sheet.
  \<^item> \<open>Format\<close>: \<open>format_timestamp\<close> of \<open>messages.rs\<close> (\<open>day_label\<close>,
    \<open>clock_text\<close>), with chrono's conversion to local time as the input
    \<open>to_local\<close> and its \<open>hour12\<close> and the \<open>{}\<close>/\<open>{:02}\<close> formats as
    definitions. The clock text is shown well-formed and injective on times of day. C29: a
    date after today is labelled "A few days ago", followed by the hour from 1 to 12 and
    two digits spelling the minute.
  \<^item> \<open>Startup\<close>: \<open>main\<close> of \<open>main.rs\<close>. \<open>main_startup\<close> is the start-up,
    with the outcomes of the xdg, SQLite, environment and GTK calls as the record
    \<open>host\<close>, an early return as \<open>Inl\<close> with its message and a failed
    \<open>expect\<close> or \<open>unwrap\<close> as \<open>None\<close>; \<open>idle_run\<close> is the main loop
    \<open>gtk::main()\<close> as a run of idle ticks with no user action between them. A lemma
    states what a successful start-up builds, with the nickname fallback. C32 (liveness): once one tick
    finds the lock free and reads without error, no dial is pending in the rest of the run.
  \<^item> \<open>Messages_Seq\<close>: the message store over sequences of operations. C39
    (equivalence): adding messages with distinct ids to \<open>Messages::new\<close> one by one
    gives, in every channel, the library's stable \<open>sort_key\<close> by timestamp of that
    channel's messages (\<open>sort_key_snoc\<close>, proved from \<open>properties_for_sort_key\<close>,
    is the insertion step). C33 (round trip): removing a newly added message restores every
    timeline, but the channel's map entry created by \<open>add\<close> stays.
  \<^item> \<open>Label\<close>: the typing notice across components. C31: a \<open>TypingReceive\<close> of
    another user read by \<open>try_read\<close> on the selected session is inserted into its
    tracker by \<open>dispatch\<close> and shown by the idle tick in the same tick; quiet sessions
    before and after it in the poll order are passed over (\<open>poll_loop_quiet_prefix\<close>).

  \<^bold>\<open>Bounds and inputs.\<close> No fuel is used: every loop of the code is a structural
  recursion or a \<open>function\<close> with a measure (\<open>bsearch_loop\<close> on the size,
  \<open>scan_fwd\<close> on the distance to the end); the one loop with no syntactic bound, the
  forward \<open>loop\<close> of \<open>add\<close>, is also given as a \<open>while_option\<close>, which is
  \<open>None\<close> on divergence, and C14 proves it returns. The main loop never ends; it is
  modelled by its finite runs (\<open>idle_run\<close>), and the liveness property C32 is stated on
  every run that contains a free, error-free tick. Ports are \<open>16 word\<close>; the parser works on
  naturals and is proved to accept exactly the values up to 65535. Time is a natural number
  of seconds.

  \<^bold>\<open>Not modelled.\<close> The GTK widgets and rendering (\<open>functions.rs\<close>, which also
  holds \<open>connect\<close>, \<open>render_*\<close> and \<open>get_mode\<close>, is not among the sources; their
  calls are effects or inputs), the TLS transport and packet framing of \<open>synac\<close> (their
  results are inputs), \<open>Listener\<close>'s buffering (a poll reads at most one packet per
  session), SQLite beyond the rows the client reads and writes, the text form of IP
  addresses (\<open>SocketAddr::to_string\<close> is an input), chrono's time-zone conversion (an
  input of \<open>format_timestamp\<close>), Markdown rendering (\<open>markdown\<close> is one call of the
  \<open>pulldown_cmark\<close> library), the rounding of \<open>f64\<close>, and user actions
  interleaved with the idle ticks of a run. Threads are not interleaved: each operation is
  atomic under the registry's lock, and a pending dial is represented by its eventual
  outcome.
\<close>

end
